theory Spec2Isabelle
  imports Main "HOL-Library.Word"
begin

section \<open>Data model\<close>

text \<open>
  The development follows \<^verbatim>\<open>lib/Analysis/DSA/DsaGlobal.cc\<close>: the context-insensitive
  and the context-sensitive global analyses. LLVM objects are identified by their
  address, a natural number; the sets of instructions the code keeps are ordered by
  that address.
\<close>

type_synonym Function = nat
type_synonym Instruction = nat
type_synonym Value = nat
type_synonym Node = nat
type_synonym GraphRef = nat

datatype Cell = Cell (getNode: Node) (getOffset: nat)

datatype Loc = ValueCell Value | RetCell Function

text \<open>
  Modelled from the spec: the class \<^verbatim>\<open>Graph\<close> (\<^verbatim>\<open>Graph.hh\<close>), the \<^verbatim>\<open>Cloner\<close>
  and the local analysis are not part of the sources at hand. A graph object is
  represented by the sequence of mutating calls made on it since its construction, in
  the order of the calls; what a query on the graph answers is a parameter that reads
  this history (record \<open>Ext\<close> below). A call that reads another graph keeps the
  history of that graph at the time of the call.
\<close>

datatype GraphOp =
    RunOnFunction Function
  | ImportGraph "GraphOp list" bool
  | MkCell Value
  | Unify Loc Cell
  | CloneNode "GraphOp list" Node
  | BottomUpCloneAndResolve Instruction "GraphOp list"
  | Compress

type_synonym Graph = "GraphOp list"

text \<open>
  Modelled from the spec: \<^verbatim>\<open>SimulationMapper\<close>, of which the code reads the two
  predicates only.
\<close>

record SimulationMapper =
  isFunction :: bool
  isInjective :: bool

text \<open>
  Modelled from the spec: \<^verbatim>\<open>DsaCallSite\<close> (\<^verbatim>\<open>CallSite.hh\<close>). A null caller or
  callee is \<open>None\<close>.
\<close>

record DsaCallSite =
  getInstruction :: Instruction
  getCaller :: "Function option"
  getCallee :: "Function option"
  actuals :: "Value list"
  formals :: "Value list"

text \<open>
  A node of LLVM's call graph: its function (null for the external nodes) and the call
  instructions of its call records. A call graph is given by the list of its strongly
  connected components in the order of \<^verbatim>\<open>scc_begin\<close>.
\<close>

record CallGraphNode =
  getFunction :: "Function option"
  callRecords :: "Instruction list"

type_synonym CallGraph = "CallGraphNode list list"

type_synonym InstSet = "Instruction list"
type_synonym Worklist = "Instruction list"

datatype PropagationKind = DOWN | UP | NONE

datatype error = AssertionFailure | NullPointer

datatype Msg =
    StartedCI | FinishedCI | StartedCS | FinishedCS
  | NoMoreTopDown | NoMoreBottomUp
  | NumTopDown "32 word" | NumBottomUp "32 word"
  | CheckFailed Instruction string
  | CheckSucceeded

text \<open>
  What the bottom-up analysis hands back: the per-function graph map and the graph
  objects as it leaves them, and the simulation mapper of each call site it resolved.
\<close>

record BUResult =
  bu_graphs :: "Function \<rightharpoonup> GraphRef"
  bu_heap :: "GraphRef \<Rightarrow> Graph"
  bu_next :: nat
  callee_caller_mapping :: "(Instruction \<times> SimulationMapper) list"

text \<open>
  Everything the two analyses consume and that lies outside \<^verbatim>\<open>DsaGlobal.cc\<close>: the
  LLVM queries on functions and instructions, the queries of \<^verbatim>\<open>Graph\<close>, the node a
  \<^verbatim>\<open>Cloner\<close> returns, \<^verbatim>\<open>Graph::computeCalleeCallerMapping\<close>, the bottom-up analysis, and
  the two build switches: whether \<^verbatim>\<open>LOG("dsa-global", ...)\<close> runs its body and whether
  \<^verbatim>\<open>NDEBUG\<close> turns \<^verbatim>\<open>assert\<close> into nothing.
\<close>

record Ext =
  isDeclaration :: "Function \<Rightarrow> bool"
  fn_empty :: "Function \<Rightarrow> bool"
  isInlineAsm :: "Instruction \<Rightarrow> bool"
  getCalledFunction :: "Instruction \<Rightarrow> Function option"
  dsaCallSite :: "Instruction \<Rightarrow> DsaCallSite"
  globals :: "Graph \<Rightarrow> (Value \<times> Cell) list"
  hasCell :: "Graph \<Rightarrow> Value \<Rightarrow> bool"
  getCell :: "Graph \<Rightarrow> Value \<Rightarrow> Cell"
  hasRetCell :: "Graph \<Rightarrow> Function \<Rightarrow> bool"
  getRetCell :: "Graph \<Rightarrow> Function \<Rightarrow> Cell"
  clone :: "Graph \<Rightarrow> Node \<Rightarrow> Node"
  computeCalleeCallerMapping ::
    "DsaCallSite \<Rightarrow> Graph \<Rightarrow> Graph \<Rightarrow> bool \<Rightarrow> bool \<times> SimulationMapper"
  bu_runOnModule ::
    "Function list \<Rightarrow> (Function \<rightharpoonup> GraphRef) \<Rightarrow> (GraphRef \<Rightarrow> Graph) \<Rightarrow> nat \<Rightarrow> BUResult"
  log_enabled :: bool
  ndebug :: bool

text \<open>
  The part of the state both analyses have: the graph objects by address, the next
  free address, and what was written to \<^verbatim>\<open>errs ()\<close>.
\<close>

record Machine =
  heap :: "GraphRef \<Rightarrow> Graph"
  next_ref :: nat
  errs :: "Msg list"

record CIGA = Machine +
  m_graph :: "GraphRef option"
  m_fns :: "Function set"

record CSGA = Machine +
  m_graphs :: "Function \<rightharpoonup> GraphRef"
  m_uses :: "Function \<rightharpoonup> InstSet"
  m_defs :: "Function \<rightharpoonup> InstSet"

section \<open>Shared helpers\<close>

text \<open>The test \<^verbatim>\<open>!fn || fn->isDeclaration () || fn->empty ()\<close>.\<close>

definition no_body :: "Ext \<Rightarrow> Function option \<Rightarrow> bool" where
  "no_body X p = (case p of None \<Rightarrow> True | Some fn \<Rightarrow> isDeclaration X fn \<or> fn_empty X fn)"

text \<open>A mutating call \<open>op\<close> on the graph object at address \<open>r\<close>.\<close>

definition call_on :: "GraphRef \<Rightarrow> GraphOp \<Rightarrow> (GraphRef \<Rightarrow> Graph) \<Rightarrow> (GraphRef \<Rightarrow> Graph)" where
  "call_on r op h = h(r := h r @ [op])"

definition log_msg :: "Ext \<Rightarrow> Msg \<Rightarrow> 'a Machine_scheme \<Rightarrow> 'a Machine_scheme" where
  "log_msg X m st = (if log_enabled X then st\<lparr>errs := errs st @ [m]\<rparr> else st)"

text \<open>\<^verbatim>\<open>std::make_shared<Graph>\<close> and \<^verbatim>\<open>new Graph\<close>: a new, empty graph object.\<close>

definition new_graph :: "'a Machine_scheme \<Rightarrow> GraphRef \<times> 'a Machine_scheme" where
  "new_graph st =
     (next_ref st, st\<lparr>heap := (heap st)(next_ref st := []), next_ref := Suc (next_ref st)\<rparr>)"

section \<open>Deciding the propagation\<close>

definition decidePropagation :: "Ext \<Rightarrow> DsaCallSite \<Rightarrow> Graph \<Rightarrow> Graph \<Rightarrow> PropagationKind" where
  "decidePropagation X cs calleeG callerG =
     (case computeCalleeCallerMapping X cs calleeG callerG True of
        (ok, sm) \<Rightarrow>
          if ok then (if isFunction sm then (if isInjective sm then NONE else DOWN) else UP)
          else UP)"

section \<open>The worklist\<close>

definition Insert :: "Worklist \<Rightarrow> Instruction \<Rightarrow> Worklist" where
  "Insert w I = (if I \<notin> set w then w @ [I] else w)"

text \<open>\<^verbatim>\<open>I = worklist.back (); worklist.pop_back ();\<close> on a non-empty worklist.\<close>

definition pop_back :: "Worklist \<Rightarrow> Instruction \<times> Worklist" where
  "pop_back w = (last w, butlast w)"

section \<open>Context-insensitive analysis\<close>

text \<open>
  \<^verbatim>\<open>resolveArguments\<close>: the return cell first, then the formals with the actuals, as far
  as the shorter of the two lists goes. \<^verbatim>\<open>*cs.getCallee ()\<close> dereferences the callee.
\<close>

definition resolve_return :: "Ext \<Rightarrow> DsaCallSite \<Rightarrow> Function \<Rightarrow> Graph \<Rightarrow> Graph" where
  "resolve_return X cs callee g =
     (if hasRetCell X g callee then
        (let g1 = g @ [MkCell (getInstruction cs)];
             r = getRetCell X g1 callee;
             c = Cell (getNode r) (getOffset r)
         in g1 @ [Unify (ValueCell (getInstruction cs)) c])
      else g)"

definition resolve_pair :: "Ext \<Rightarrow> Value \<times> Value \<Rightarrow> Graph \<Rightarrow> Graph" where
  "resolve_pair X p g =
     (case p of (farg, arg) \<Rightarrow>
        if hasCell X g farg then
          (let g1 = g @ [MkCell arg];
               g2 = g1 @ [MkCell farg]
           in g2 @ [Unify (ValueCell arg) (getCell X g2 farg)])
        else g)"

definition resolveArguments :: "Ext \<Rightarrow> DsaCallSite \<Rightarrow> Graph \<Rightarrow> error + Graph" where
  "resolveArguments X cs g =
     (case getCallee cs of
        None \<Rightarrow> Inl NullPointer
      | Some callee \<Rightarrow>
          Inr (fold (resolve_pair X) (zip (formals cs) (actuals cs)) (resolve_return X cs callee g)))"

text \<open>The first inner loop of \<^verbatim>\<open>runOnModule\<close>: the local graphs of a component are imported.\<close>

definition import_node :: "Ext \<Rightarrow> GraphRef \<Rightarrow> CallGraphNode \<Rightarrow> CIGA \<Rightarrow> CIGA" where
  "import_node X r cgn st =
     (case getFunction cgn of
        None \<Rightarrow> st
      | Some fn \<Rightarrow>
          if isDeclaration X fn \<or> fn_empty X fn then st
          else
            (let fGraph = [] @ [RunOnFunction fn]
             in st\<lparr>m_fns := insert fn (m_fns st),
                    heap := call_on r (ImportGraph fGraph True) (heap st)\<rparr>))"

text \<open>The second inner loop: the call records of a function with a body.\<close>

definition resolve_record :: "Ext \<Rightarrow> GraphRef \<Rightarrow> Function \<Rightarrow> Instruction \<Rightarrow> CIGA \<Rightarrow> error + CIGA" where
  "resolve_record X r fn I st =
     (let dsa_cs = dsaCallSite X I in
      if \<not> no_body X (getCallee dsa_cs) then
        (if \<not> ndebug X \<and> Some fn \<noteq> getCaller dsa_cs then Inl AssertionFailure
         else
           (case resolveArguments X dsa_cs (heap st r) of
              Inl e \<Rightarrow> Inl e
            | Inr g \<Rightarrow> Inr (st\<lparr>heap := (heap st)(r := g)\<rparr>)))
      else Inr st)"

fun resolve_records :: "Ext \<Rightarrow> GraphRef \<Rightarrow> Function \<Rightarrow> Instruction list \<Rightarrow> CIGA \<Rightarrow> error + CIGA" where
  "resolve_records X r fn [] st = Inr st"
| "resolve_records X r fn (I # Is) st =
     (case resolve_record X r fn I st of
        Inl e \<Rightarrow> Inl e
      | Inr st' \<Rightarrow> resolve_records X r fn Is st')"

definition resolve_node :: "Ext \<Rightarrow> GraphRef \<Rightarrow> CallGraphNode \<Rightarrow> CIGA \<Rightarrow> error + CIGA" where
  "resolve_node X r cgn st =
     (case getFunction cgn of
        None \<Rightarrow> Inr st
      | Some fn \<Rightarrow>
          if isDeclaration X fn \<or> fn_empty X fn then Inr st
          else resolve_records X r fn (callRecords cgn) st)"

fun resolve_nodes :: "Ext \<Rightarrow> GraphRef \<Rightarrow> CallGraphNode list \<Rightarrow> CIGA \<Rightarrow> error + CIGA" where
  "resolve_nodes X r [] st = Inr st"
| "resolve_nodes X r (cgn # cgns) st =
     (case resolve_node X r cgn st of
        Inl e \<Rightarrow> Inl e
      | Inr st' \<Rightarrow> resolve_nodes X r cgns st')"

definition ci_scc :: "Ext \<Rightarrow> GraphRef \<Rightarrow> CallGraphNode list \<Rightarrow> CIGA \<Rightarrow> error + CIGA" where
  "ci_scc X r scc st =
     (case resolve_nodes X r scc (fold (import_node X r) scc st) of
        Inl e \<Rightarrow> Inl e
      | Inr st' \<Rightarrow> Inr (st'\<lparr>heap := call_on r Compress (heap st')\<rparr>))"

fun ci_sccs :: "Ext \<Rightarrow> GraphRef \<Rightarrow> CallGraph \<Rightarrow> CIGA \<Rightarrow> error + CIGA" where
  "ci_sccs X r [] st = Inr st"
| "ci_sccs X r (scc # sccs) st =
     (case ci_scc X r scc st of
        Inl e \<Rightarrow> Inl e
      | Inr st' \<Rightarrow> ci_sccs X r sccs st')"

text \<open>
  \<^verbatim>\<open>ContextInsensitiveGlobalAnalysis::runOnModule\<close>. The call graph is the member
  \<^verbatim>\<open>m_cg\<close>; the timers of \<^verbatim>\<open>ufo::Stats\<close> leave no trace in the state.
\<close>

definition ci_runOnModule :: "Ext \<Rightarrow> CallGraph \<Rightarrow> CIGA \<Rightarrow> error + (CIGA \<times> bool)" where
  "ci_runOnModule X cg st =
     (let st1 = log_msg X StartedCI st;
          (r, st2) = new_graph st1;
          st3 = st2\<lparr>m_graph := Some r\<rparr>
      in case ci_sccs X r cg st3 of
           Inl e \<Rightarrow> Inl e
         | Inr st4 \<Rightarrow> Inr (log_msg X FinishedCI st4, False))"

text \<open>The analysis object as its constructor leaves it.\<close>

definition ci_init :: CIGA where
  "ci_init = \<lparr>heap = (\<lambda>_. []), next_ref = 0, errs = [], m_graph = None, m_fns = {}\<rparr>"

text \<open>
  \<^verbatim>\<open>getGraph\<close> asserts \<^verbatim>\<open>m_graph\<close> and returns the object it points to, whatever the
  function; the result here is the address of that object.
\<close>

definition ci_getGraph :: "Ext \<Rightarrow> CIGA \<Rightarrow> Function \<Rightarrow> error + GraphRef" where
  "ci_getGraph X st fn =
     (case m_graph st of
        None \<Rightarrow> Inl (if ndebug X then NullPointer else AssertionFailure)
      | Some r \<Rightarrow> Inr r)"

definition ci_hasGraph :: "CIGA \<Rightarrow> Function \<Rightarrow> bool" where
  "ci_hasGraph st fn = (fn \<in> m_fns st)"

section \<open>Cloning the caller into the callee\<close>

text \<open>
  The static helper \<^verbatim>\<open>cloneAndResolveArguments\<close>. The two graphs are given by their
  addresses, since a call site of a recursive function has one graph on both sides.
  The cloner is built on the callee graph, so each \<^verbatim>\<open>C.clone\<close> is a call on that
  graph; the globals of the caller are the ones found when the loop starts.
\<close>

definition clone_global ::
    "Ext \<Rightarrow> GraphRef \<Rightarrow> GraphRef \<Rightarrow> Value \<times> Cell \<Rightarrow> (GraphRef \<Rightarrow> Graph) \<Rightarrow> (GraphRef \<Rightarrow> Graph)" where
  "clone_global X callerG calleeG kv h =
     (case kv of (v, c) \<Rightarrow>
        (let h1 = call_on calleeG (CloneNode (h callerG) (getNode c)) h;
             n = clone X (h1 calleeG) (getNode c);
             c' = Cell n (getOffset c);
             h2 = call_on calleeG (MkCell v) h1
         in call_on calleeG (Unify (ValueCell v) c') h2))"

definition clone_return ::
    "Ext \<Rightarrow> DsaCallSite \<Rightarrow> Function \<Rightarrow> GraphRef \<Rightarrow> GraphRef \<Rightarrow> (GraphRef \<Rightarrow> Graph) \<Rightarrow> (GraphRef \<Rightarrow> Graph)" where
  "clone_return X cs callee callerG calleeG h =
     (if hasRetCell X (h calleeG) callee \<and> hasCell X (h callerG) (getInstruction cs) then
        (let h1 = call_on calleeG
                    (CloneNode (h callerG) (getNode (getCell X (h callerG) (getInstruction cs)))) h;
             n = clone X (h1 calleeG) (getNode (getCell X (h callerG) (getInstruction cs)));
             c = Cell n (getOffset (getCell X (h1 callerG) (getInstruction cs)))
         in call_on calleeG (Unify (RetCell callee) c) h1)
      else h)"

definition clone_pair ::
    "Ext \<Rightarrow> GraphRef \<Rightarrow> GraphRef \<Rightarrow> Value \<times> Value \<Rightarrow> (GraphRef \<Rightarrow> Graph) \<Rightarrow> (GraphRef \<Rightarrow> Graph)" where
  "clone_pair X callerG calleeG p h =
     (case p of (fml, arg) \<Rightarrow>
        if hasCell X (h callerG) arg \<and> hasCell X (h calleeG) fml then
          (let h1 = call_on calleeG (CloneNode (h callerG) (getNode (getCell X (h callerG) arg))) h;
               n = clone X (h1 calleeG) (getNode (getCell X (h callerG) arg));
               c = Cell n (getOffset (getCell X (h1 callerG) arg));
               h2 = call_on calleeG (MkCell fml) h1
           in call_on calleeG (Unify (ValueCell fml) c) h2)
        else h)"

definition cloneAndResolveArguments ::
    "Ext \<Rightarrow> DsaCallSite \<Rightarrow> GraphRef \<Rightarrow> GraphRef \<Rightarrow> (GraphRef \<Rightarrow> Graph) \<Rightarrow> error + (GraphRef \<Rightarrow> Graph)" where
  "cloneAndResolveArguments X cs callerG calleeG h =
     (let h1 = fold (clone_global X callerG calleeG) (globals X (h callerG)) h
      in case getCallee cs of
           None \<Rightarrow> Inl NullPointer
         | Some callee \<Rightarrow>
             (let h2 = clone_return X cs callee callerG calleeG h1;
                  h3 = fold (clone_pair X callerG calleeG) (zip (formals cs) (actuals cs)) h2
              in Inr (call_on calleeG Compress h3)))"

text \<open>
  Modelled from the spec: \<^verbatim>\<open>BottomUpAnalysis::cloneAndResolveArguments\<close> is not part
  of the sources at hand; it clones the callee into the caller, a single call on the
  caller graph that reads the callee graph.
\<close>

definition bu_cloneAndResolveArguments ::
    "DsaCallSite \<Rightarrow> GraphRef \<Rightarrow> GraphRef \<Rightarrow> (GraphRef \<Rightarrow> Graph) \<Rightarrow> (GraphRef \<Rightarrow> Graph)" where
  "bu_cloneAndResolveArguments cs calleeG callerG h =
     call_on callerG (BottomUpCloneAndResolve (getInstruction cs) (h calleeG)) h"

section \<open>Context-sensitive analysis\<close>

text \<open>
  Modelled from the spec: \<^verbatim>\<open>InstSet\<close> and \<^verbatim>\<open>Worklist\<close> are declared in \<^verbatim>\<open>Global.hh\<close>,
  which is not part of the sources at hand. A set of instructions is kept without
  repetition in the order of the addresses, which is the order its loops go through;
  the worklist is a sequence with \<^verbatim>\<open>push_back\<close>, \<^verbatim>\<open>back\<close> and \<^verbatim>\<open>pop_back\<close>.
\<close>

definition set_insert :: "Instruction \<Rightarrow> InstSet \<Rightarrow> InstSet" where
  "set_insert I s = (if I \<in> set s then s else insort I s)"

subsection \<open>The indexes\<close>

definition pred_record :: "Ext \<Rightarrow> Instruction \<Rightarrow> (Function \<Rightarrow> InstSet) \<Rightarrow> (Function \<Rightarrow> InstSet)" where
  "pred_record X I imm_preds =
     (case getCalledFunction X I of
        None \<Rightarrow> imm_preds
      | Some callee \<Rightarrow>
          if isDeclaration X callee \<or> fn_empty X callee then imm_preds
          else imm_preds(callee := set_insert I (imm_preds callee)))"

definition pred_node :: "Ext \<Rightarrow> CallGraphNode \<Rightarrow> (Function \<Rightarrow> InstSet) \<Rightarrow> (Function \<Rightarrow> InstSet)" where
  "pred_node X cgn imm_preds =
     (if no_body X (getFunction cgn) then imm_preds
      else fold (pred_record X) (callRecords cgn) imm_preds)"

definition compute_imm_preds :: "Ext \<Rightarrow> CallGraph \<Rightarrow> (Function \<Rightarrow> InstSet)" where
  "compute_imm_preds X cg = fold (\<lambda>scc. fold (pred_node X) scc) cg (\<lambda>_. [])"

definition usedef_node ::
    "Ext \<Rightarrow> (Function \<Rightarrow> InstSet) \<Rightarrow> CallGraphNode \<Rightarrow> InstSet \<times> InstSet \<Rightarrow> InstSet \<times> InstSet" where
  "usedef_node X imm_preds cgn ud =
     (case getFunction cgn of
        None \<Rightarrow> ud
      | Some fn \<Rightarrow>
          if isDeclaration X fn \<or> fn_empty X fn then ud
          else (fold set_insert (imm_preds fn) (fst ud), fold set_insert (callRecords cgn) (snd ud)))"

definition store_node :: "Ext \<Rightarrow> InstSet \<times> InstSet \<Rightarrow> CallGraphNode \<Rightarrow> CSGA \<Rightarrow> CSGA" where
  "store_node X ud cgn st =
     (case getFunction cgn of
        None \<Rightarrow> st
      | Some fn \<Rightarrow>
          if isDeclaration X fn \<or> fn_empty X fn then st
          else st\<lparr>m_uses := (m_uses st)(fn \<mapsto> fst ud), m_defs := (m_defs st)(fn \<mapsto> snd ud)\<rparr>)"

definition index_scc :: "Ext \<Rightarrow> (Function \<Rightarrow> InstSet) \<Rightarrow> CallGraphNode list \<Rightarrow> CSGA \<Rightarrow> CSGA" where
  "index_scc X imm_preds scc st =
     fold (store_node X (fold (usedef_node X imm_preds) scc ([], []))) scc st"

definition buildIndexes :: "Ext \<Rightarrow> CallGraph \<Rightarrow> CSGA \<Rightarrow> CSGA" where
  "buildIndexes X cg st = fold (index_scc X (compute_imm_preds X cg)) cg st"

subsection \<open>The two propagations\<close>

definition propagateTopDown ::
    "Ext \<Rightarrow> DsaCallSite \<Rightarrow> GraphRef \<Rightarrow> GraphRef \<Rightarrow> 'a Machine_scheme \<Rightarrow> error + 'a Machine_scheme" where
  "propagateTopDown X cs callerG calleeG st =
     (case cloneAndResolveArguments X cs callerG calleeG (heap st) of
        Inl e \<Rightarrow> Inl e
      | Inr h \<Rightarrow>
          (let st1 = st\<lparr>heap := h\<rparr>;
               st2 = (if decidePropagation X cs (heap st1 calleeG) (heap st1 callerG) = DOWN
                      then log_msg X NoMoreTopDown st1 else st1)
           in if \<not> ndebug X \<and> decidePropagation X cs (heap st2 calleeG) (heap st2 callerG) = DOWN
              then Inl AssertionFailure
              else Inr st2))"

definition propagateBottomUp ::
    "Ext \<Rightarrow> DsaCallSite \<Rightarrow> GraphRef \<Rightarrow> GraphRef \<Rightarrow> 'a Machine_scheme \<Rightarrow> error + 'a Machine_scheme" where
  "propagateBottomUp X cs calleeG callerG st =
     (let st1 = st\<lparr>heap := bu_cloneAndResolveArguments cs calleeG callerG (heap st)\<rparr>;
          st2 = (if decidePropagation X cs (heap st1 calleeG) (heap st1 callerG) = UP
                 then log_msg X NoMoreBottomUp st1 else st1)
      in if \<not> ndebug X \<and> decidePropagation X cs (heap st2 calleeG) (heap st2 callerG) = UP
         then Inl AssertionFailure
         else Inr st2)"

subsection \<open>The worklist loop\<close>

text \<open>
  \<^verbatim>\<open>*(m_graphs.find (f)->second)\<close> behind \<^verbatim>\<open>assert (m_graphs.count (f) > 0)\<close>: without an
  entry the assertion fails, or, where assertions are compiled out, the end iterator
  is dereferenced.
\<close>

definition graph_of :: "Ext \<Rightarrow> CSGA \<Rightarrow> Function option \<Rightarrow> error + GraphRef" where
  "graph_of X st p =
     (case (case p of None \<Rightarrow> None | Some f \<Rightarrow> m_graphs st f) of
        None \<Rightarrow> Inl (if ndebug X then NullPointer else AssertionFailure)
      | Some r \<Rightarrow> Inr r)"

text \<open>
  The two loops over \<^verbatim>\<open>*(m_uses [fn])\<close> and \<^verbatim>\<open>*(m_defs [fn])\<close>; \<^verbatim>\<open>operator[]\<close> gives a
  null pointer for a function without an entry.
\<close>

definition reinsert :: "CSGA \<Rightarrow> Function \<Rightarrow> Worklist \<Rightarrow> error + Worklist" where
  "reinsert st fn w =
     (case m_uses st fn of
        None \<Rightarrow> Inl NullPointer
      | Some us \<Rightarrow>
          (case m_defs st fn of
             None \<Rightarrow> Inl NullPointer
           | Some ds \<Rightarrow> Inr (fold (\<lambda>cs w. Insert w cs) ds (fold (\<lambda>cs w. Insert w cs) us w))))"

record LoopState =
  ga :: CSGA
  worklist :: Worklist
  td_props :: "32 word"
  bu_props :: "32 word"

text \<open>One round of \<^verbatim>\<open>while (!worklist.empty ())\<close>, on a non-empty worklist.\<close>

definition loop_body :: "Ext \<Rightarrow> LoopState \<Rightarrow> error + LoopState" where
  "loop_body X ls =
     (case pop_back (worklist ls) of (I, w) \<Rightarrow>
        (let ls1 = ls\<lparr>worklist := w\<rparr> in
         if isInlineAsm X I then Inr ls1
         else
           (let dsaCS = dsaCallSite X I in
            case getCallee dsaCS of
              None \<Rightarrow> Inr ls1
            | Some fn \<Rightarrow>
                if isDeclaration X fn \<or> fn_empty X fn then Inr ls1
                else
                  (case graph_of X (ga ls1) (getCaller dsaCS) of
                     Inl e \<Rightarrow> Inl e
                   | Inr callerG \<Rightarrow>
                       (case graph_of X (ga ls1) (getCallee dsaCS) of
                          Inl e \<Rightarrow> Inl e
                        | Inr calleeG \<Rightarrow>
                            (case decidePropagation X dsaCS
                                    (heap (ga ls1) calleeG) (heap (ga ls1) callerG) of
                               DOWN \<Rightarrow>
                                 (case propagateTopDown X dsaCS callerG calleeG (ga ls1) of
                                    Inl e \<Rightarrow> Inl e
                                  | Inr st \<Rightarrow>
                                      (case reinsert st fn w of
                                         Inl e \<Rightarrow> Inl e
                                       | Inr w' \<Rightarrow>
                                           Inr (ls1\<lparr>ga := st, worklist := w',
                                                     td_props := td_props ls1 + 1\<rparr>)))
                             | UP \<Rightarrow>
                                 (case propagateBottomUp X dsaCS calleeG callerG (ga ls1) of
                                    Inl e \<Rightarrow> Inl e
                                  | Inr st \<Rightarrow>
                                      (case getCaller dsaCS of
                                         None \<Rightarrow>
                                           Inr (ls1\<lparr>ga := st, bu_props := bu_props ls1 + 1\<rparr>)
                                       | Some caller \<Rightarrow>
                                           (case reinsert st caller w of
                                              Inl e \<Rightarrow> Inl e
                                            | Inr w' \<Rightarrow>
                                                Inr (ls1\<lparr>ga := st, worklist := w',
                                                          bu_props := bu_props ls1 + 1\<rparr>))))
                             | NONE \<Rightarrow> Inr ls1))))))"

text \<open>
  The loop, with a bound on the number of rounds: \<open>None\<close> when the worklist is not
  empty after that many rounds.
\<close>

fun worklist_loop :: "Ext \<Rightarrow> nat \<Rightarrow> LoopState \<Rightarrow> (error + LoopState) option" where
  "worklist_loop X 0 ls = (if worklist ls = [] then Some (Inr ls) else None)"
| "worklist_loop X (Suc k) ls =
     (if worklist ls = [] then Some (Inr ls)
      else case loop_body X ls of
             Inl e \<Rightarrow> Some (Inl e)
           | Inr ls' \<Rightarrow> worklist_loop X k ls')"

subsection \<open>The check after the loop\<close>

text \<open>
  \<^verbatim>\<open>checkNoMorePropagation\<close> leaves its three loops at the first call site that needs a
  propagation: \<open>Some\<close> of the message it writes there, \<open>None\<close> to go on.
\<close>

definition check_callsite :: "Ext \<Rightarrow> CSGA \<Rightarrow> Instruction \<Rightarrow> error + Msg option" where
  "check_callsite X st I =
     (let cs = dsaCallSite X I in
      if no_body X (getCallee cs) then Inr None
      else
        (case graph_of X st (getCaller cs) of
           Inl e \<Rightarrow> Inl e
         | Inr callerG \<Rightarrow>
             (case graph_of X st (getCallee cs) of
                Inl e \<Rightarrow> Inl e
              | Inr calleeG \<Rightarrow>
                  (let pkind = decidePropagation X cs (heap st calleeG) (heap st callerG) in
                   if pkind \<noteq> NONE then
                     Inr (Some (CheckFailed (getInstruction cs)
                                  (if pkind = UP then ''bottom-up'' else ''top-down'')))
                   else Inr None))))"

fun check_records :: "Ext \<Rightarrow> CSGA \<Rightarrow> Instruction list \<Rightarrow> error + Msg option" where
  "check_records X st [] = Inr None"
| "check_records X st (I # Is) =
     (case check_callsite X st I of
        Inl e \<Rightarrow> Inl e
      | Inr (Some m) \<Rightarrow> Inr (Some m)
      | Inr None \<Rightarrow> check_records X st Is)"

fun check_nodes :: "Ext \<Rightarrow> CSGA \<Rightarrow> CallGraphNode list \<Rightarrow> error + Msg option" where
  "check_nodes X st [] = Inr None"
| "check_nodes X st (cgn # cgns) =
     (case (if no_body X (getFunction cgn) then Inr None
            else check_records X st (callRecords cgn)) of
        Inl e \<Rightarrow> Inl e
      | Inr (Some m) \<Rightarrow> Inr (Some m)
      | Inr None \<Rightarrow> check_nodes X st cgns)"

fun check_sccs :: "Ext \<Rightarrow> CSGA \<Rightarrow> CallGraph \<Rightarrow> error + Msg option" where
  "check_sccs X st [] = Inr None"
| "check_sccs X st (scc # sccs) =
     (case check_nodes X st scc of
        Inl e \<Rightarrow> Inl e
      | Inr (Some m) \<Rightarrow> Inr (Some m)
      | Inr None \<Rightarrow> check_sccs X st sccs)"

definition checkNoMorePropagation :: "Ext \<Rightarrow> CallGraph \<Rightarrow> CSGA \<Rightarrow> error + (bool \<times> CSGA)" where
  "checkNoMorePropagation X cg st =
     (case check_sccs X st cg of
        Inl e \<Rightarrow> Inl e
      | Inr (Some m) \<Rightarrow> Inr (False, st\<lparr>errs := errs st @ [m]\<rparr>)
      | Inr None \<Rightarrow> Inr (True, st\<lparr>errs := errs st @ [CheckSucceeded]\<rparr>))"

subsection \<open>The run\<close>

definition init_graph :: "Function \<Rightarrow> CSGA \<Rightarrow> CSGA" where
  "init_graph F st = (case new_graph st of (fGraph, st') \<Rightarrow> st'\<lparr>m_graphs := (m_graphs st')(F \<mapsto> fGraph)\<rparr>)"

text \<open>The statement \<^verbatim>\<open>LOG("dsa-global", checkNoMorePropagation ())\<close>: the result is dropped.\<close>

definition logged_check :: "Ext \<Rightarrow> CallGraph \<Rightarrow> CSGA \<Rightarrow> error + CSGA" where
  "logged_check X cg st =
     (if log_enabled X then
        (case checkNoMorePropagation X cg st of Inl e \<Rightarrow> Inl e | Inr (b, st') \<Rightarrow> Inr st')
      else Inr st)"

text \<open>The statement \<^verbatim>\<open>assert (checkNoMorePropagation ())\<close>.\<close>

definition asserted_check :: "Ext \<Rightarrow> CallGraph \<Rightarrow> CSGA \<Rightarrow> error + CSGA" where
  "asserted_check X cg st =
     (if \<not> ndebug X then
        (case checkNoMorePropagation X cg st of
           Inl e \<Rightarrow> Inl e
         | Inr (b, st') \<Rightarrow> if b then Inr st' else Inl AssertionFailure)
      else Inr st)"

text \<open>
  \<^verbatim>\<open>ContextSensitiveGlobalAnalysis::runOnModule\<close>, on the functions of the module in
  their order, with the call graph \<^verbatim>\<open>m_cg\<close> and a bound on the rounds of the loop. It
  is cut in three: what comes before the loop, the loop, what comes after it.
\<close>

definition cs_seed :: "Ext \<Rightarrow> Function list \<Rightarrow> CallGraph \<Rightarrow> CSGA \<Rightarrow> LoopState" where
  "cs_seed X M cg st =
     (let st1 = log_msg X StartedCS st;
          st2 = fold init_graph M st1;
          bu = bu_runOnModule X M (m_graphs st2) (heap st2) (next_ref st2);
          st3 = st2\<lparr>heap := bu_heap bu, next_ref := bu_next bu, m_graphs := bu_graphs bu\<rparr>;
          st4 = buildIndexes X cg st3;
          wl = map fst (filter (\<lambda>kv. \<not> isInjective (snd kv)) (callee_caller_mapping bu))
      in \<lparr>ga = st4, worklist = wl, td_props = 0, bu_props = 0\<rparr>)"

definition cs_finish :: "Ext \<Rightarrow> CallGraph \<Rightarrow> LoopState \<Rightarrow> error + (CSGA \<times> bool)" where
  "cs_finish X cg ls =
     (let st5 = log_msg X (NumBottomUp (bu_props ls))
                  (log_msg X (NumTopDown (td_props ls)) (ga ls))
      in case logged_check X cg st5 of
           Inl e \<Rightarrow> Inl e
         | Inr st6 \<Rightarrow>
             (case asserted_check X cg st6 of
                Inl e \<Rightarrow> Inl e
              | Inr st7 \<Rightarrow> Inr (log_msg X FinishedCS st7, False)))"

definition cs_runOnModule ::
    "Ext \<Rightarrow> nat \<Rightarrow> Function list \<Rightarrow> CallGraph \<Rightarrow> CSGA \<Rightarrow> (error + (CSGA \<times> bool)) option" where
  "cs_runOnModule X fuel M cg st =
     (case worklist_loop X fuel (cs_seed X M cg st) of
        None \<Rightarrow> None
      | Some (Inl e) \<Rightarrow> Some (Inl e)
      | Some (Inr ls) \<Rightarrow> Some (cs_finish X cg ls))"

definition cs_init :: CSGA where
  "cs_init = \<lparr>heap = (\<lambda>_. []), next_ref = 0, errs = [],
              m_graphs = Map.empty, m_uses = Map.empty, m_defs = Map.empty\<rparr>"

definition cs_getGraph :: "CSGA \<Rightarrow> Function \<Rightarrow> error + GraphRef" where
  "cs_getGraph st fn = (case m_graphs st fn of None \<Rightarrow> Inl NullPointer | Some r \<Rightarrow> Inr r)"

definition cs_hasGraph :: "CSGA \<Rightarrow> Function \<Rightarrow> bool" where
  "cs_hasGraph st fn = (m_graphs st fn \<noteq> None)"

section \<open>Notions used by the properties\<close>

text \<open>The locations a sequence of calls unifies, in the order of the calls.\<close>

fun unified :: "Graph \<Rightarrow> Loc list" where
  "unified [] = []"
| "unified (Unify l c # T) = l # unified T"
| "unified (op # T) = unified T"

text \<open>The nodes a sequence of calls clones, in the order of the calls.\<close>

fun cloned :: "Graph \<Rightarrow> Node list" where
  "cloned [] = []"
| "cloned (CloneNode g n # T) = n # cloned T"
| "cloned (op # T) = cloned T"

text \<open>
  The three steps of the helper that clones the caller into the callee, as sequences of
  calls on the callee graph \<open>g\<close>. The caller graph is read through \<open>view\<close>, which gives
  it for the callee graph as it stands: a call site of a recursive function has one
  graph object on both sides.
\<close>

definition caller_view :: "(GraphRef \<Rightarrow> Graph) \<Rightarrow> GraphRef \<Rightarrow> GraphRef \<Rightarrow> Graph \<Rightarrow> Graph" where
  "caller_view h callerG calleeG g = (if callerG = calleeG then g else h callerG)"

text \<open>
  Step (1): every global of the caller graph, in its order, is cloned and unified with
  the cell the callee graph has or gets for it.
\<close>

definition global_calls :: "Ext \<Rightarrow> (Graph \<Rightarrow> Graph) \<Rightarrow> Graph \<Rightarrow> Value \<times> Cell \<Rightarrow> Graph" where
  "global_calls X view g kv =
     (case kv of (v, c) \<Rightarrow>
        [CloneNode (view g) (getNode c), MkCell v,
         Unify (ValueCell v)
           (Cell (clone X (g @ [CloneNode (view g) (getNode c)]) (getNode c)) (getOffset c))])"

fun step1_calls :: "Ext \<Rightarrow> (Graph \<Rightarrow> Graph) \<Rightarrow> Graph \<Rightarrow> (Value \<times> Cell) list \<Rightarrow> Graph" where
  "step1_calls X view g [] = []"
| "step1_calls X view g (kv # kvs) =
     global_calls X view g kv @ step1_calls X view (g @ global_calls X view g kv) kvs"

text \<open>
  Step (2): the return cell is cloned and unified if the callee graph has a return cell
  and the caller graph has a cell for the call instruction.
\<close>

definition step2_calls :: "Ext \<Rightarrow> (Graph \<Rightarrow> Graph) \<Rightarrow> DsaCallSite \<Rightarrow> Function \<Rightarrow> Graph \<Rightarrow> Graph" where
  "step2_calls X view cs callee g =
     (if hasRetCell X g callee \<and> hasCell X (view g) (getInstruction cs) then
        (let n = getNode (getCell X (view g) (getInstruction cs));
             g1 = g @ [CloneNode (view g) n]
         in [CloneNode (view g) n,
             Unify (RetCell callee)
               (Cell (clone X g1 n) (getOffset (getCell X (view g1) (getInstruction cs))))])
      else [])"

text \<open>
  Step (3): the pairs of a formal and an actual are taken in order; a pair is cloned and
  unified if the caller graph has a cell for the actual and the callee graph has a cell
  for the formal, and is passed over otherwise.
\<close>

definition pair_calls :: "Ext \<Rightarrow> (Graph \<Rightarrow> Graph) \<Rightarrow> Graph \<Rightarrow> Value \<times> Value \<Rightarrow> Graph" where
  "pair_calls X view g p =
     (case p of (fml, arg) \<Rightarrow>
        if hasCell X (view g) arg \<and> hasCell X g fml then
          (let n = getNode (getCell X (view g) arg);
               g1 = g @ [CloneNode (view g) n]
           in [CloneNode (view g) n, MkCell fml,
               Unify (ValueCell fml) (Cell (clone X g1 n) (getOffset (getCell X (view g1) arg)))])
        else [])"

fun step3_calls :: "Ext \<Rightarrow> (Graph \<Rightarrow> Graph) \<Rightarrow> Graph \<Rightarrow> (Value \<times> Value) list \<Rightarrow> Graph" where
  "step3_calls X view g [] = []"
| "step3_calls X view g (p # ps) =
     pair_calls X view g p @ step3_calls X view (g @ pair_calls X view g p) ps"

text \<open>The local graphs a sequence of calls imports, in the order of the calls.\<close>

fun local_graphs :: "Graph \<Rightarrow> Graph list" where
  "local_graphs [] = []"
| "local_graphs (ImportGraph g b # T) = g # local_graphs T"
| "local_graphs (op # T) = local_graphs T"

text \<open>The functions the walk over the components finds with a body, in its order.\<close>

definition with_body :: "Ext \<Rightarrow> CallGraphNode \<Rightarrow> Function list" where
  "with_body X cgn =
     (case getFunction cgn of
        None \<Rightarrow> []
      | Some fn \<Rightarrow> if isDeclaration X fn \<or> fn_empty X fn then [] else [fn])"

definition walked :: "Ext \<Rightarrow> CallGraph \<Rightarrow> Function list" where
  "walked X cg = concat (map (\<lambda>scc. concat (map (with_body X) scc)) cg)"

text \<open>The same functions as a set.\<close>

definition imported :: "Ext \<Rightarrow> CallGraph \<Rightarrow> Function set" where
  "imported X cg =
     {fn. \<exists>scc \<in> set cg. \<exists>cgn \<in> set scc.
            getFunction cgn = Some fn \<and> \<not> isDeclaration X fn \<and> \<not> fn_empty X fn}"



text \<open>
  Modelled from the spec: \<^verbatim>\<open>Graph::getCell\<close> is not part of the sources at hand; on a
  location without a cell it fails fast. This is the cell of a location in the graph
  \<^verbatim>\<open>getGraph\<close> returns for a function.
\<close>

definition ci_cell :: "Ext \<Rightarrow> CIGA \<Rightarrow> Function \<Rightarrow> Value \<Rightarrow> error + Cell" where
  "ci_cell X st fn v =
     (case ci_getGraph X st fn of
        Inl e \<Rightarrow> Inl e
      | Inr r \<Rightarrow>
          if hasCell X (heap st r) v then Inr (getCell X (heap st r) v)
          else Inl AssertionFailure)"




section \<open>A module to run the analyses on\<close>

text \<open>
  Functions 1, 2 and 4 have bodies, function 3 is a declaration. Instruction 10 calls 2
  from 1 with two actuals for one formal, 11 calls 1 from 2, 12 calls 4 from 2, and 13
  calls the declaration 3 from 1. Instruction 14 is a further call of 2 from 1, with
  three actuals for two formals.
\<close>

definition ex_site :: "Instruction \<Rightarrow> DsaCallSite" where
  "ex_site I =
     (if I = 10 then
        \<lparr>getInstruction = 10, getCaller = Some 1, getCallee = Some 2,
         actuals = [20, 21], formals = [30]\<rparr>
      else if I = 11 then
        \<lparr>getInstruction = 11, getCaller = Some 2, getCallee = Some 1,
         actuals = [], formals = []\<rparr>
      else if I = 12 then
        \<lparr>getInstruction = 12, getCaller = Some 2, getCallee = Some 4,
         actuals = [], formals = []\<rparr>
      else if I = 13 then
        \<lparr>getInstruction = 13, getCaller = Some 1, getCallee = Some 3,
         actuals = [], formals = []\<rparr>
      else if I = 14 then
        \<lparr>getInstruction = 14, getCaller = Some 1, getCallee = Some 2,
         actuals = [20, 22, 23], formals = [30, 31]\<rparr>
      else \<lparr>getInstruction = I, getCaller = None, getCallee = None, actuals = [], formals = []\<rparr>)"

definition ex_module :: "Function list" where
  "ex_module = [1, 2, 3, 4]"

text \<open>1 calls 2 and 2 calls 4: three components, the callees first.\<close>

definition ex_cg :: CallGraph where
  "ex_cg =
     [[\<lparr>getFunction = Some 4, callRecords = []\<rparr>],
      [\<lparr>getFunction = Some 2, callRecords = [12]\<rparr>],
      [\<lparr>getFunction = Some 1, callRecords = [10, 13]\<rparr>],
      [\<lparr>getFunction = Some 3, callRecords = []\<rparr>],
      [\<lparr>getFunction = None, callRecords = []\<rparr>]]"

text \<open>1 calls 2 and 2 calls 1: one component with both.\<close>

definition ex_cg_rec :: CallGraph where
  "ex_cg_rec =
     [[\<lparr>getFunction = Some 1, callRecords = [10, 13]\<rparr>,
       \<lparr>getFunction = Some 2, callRecords = [11]\<rparr>],
      [\<lparr>getFunction = Some 3, callRecords = []\<rparr>]]"

text \<open>
  A bottom-up analysis that keeps the graph objects it is given and runs the local
  analysis on those of the functions with a body.
\<close>

definition ex_bu ::
    "(Instruction \<times> SimulationMapper) list \<Rightarrow> Function list \<Rightarrow> (Function \<rightharpoonup> GraphRef) \<Rightarrow>
     (GraphRef \<Rightarrow> Graph) \<Rightarrow> nat \<Rightarrow> BUResult" where
  "ex_bu mapping M gs h n =
     \<lparr>bu_graphs = gs,
      bu_heap = fold (\<lambda>f h'. case gs f of
                                None \<Rightarrow> h'
                              | Some r \<Rightarrow> if f = 3 then h' else call_on r (RunOnFunction f) h') M h,
      bu_next = n,
      callee_caller_mapping = mapping\<rparr>"

text \<open>
  Graph queries for the module. A graph has what the local graph of a function has once
  the local analysis has run on it or that local graph has been imported into it.
  Function 1 has cells for the global 40, for its calls 10 and 14 and for the actual
  22, but none for the actuals 20, 21 and 23; function 2 has cells for its formals 30
  and 31.
\<close>

definition ex_ran :: "Function \<Rightarrow> Graph \<Rightarrow> bool" where
  "ex_ran f g = (RunOnFunction f \<in> set g \<or> ImportGraph [RunOnFunction f] True \<in> set g)"

definition ex_X ::
    "(DsaCallSite \<Rightarrow> Graph \<Rightarrow> Graph \<Rightarrow> bool \<Rightarrow> bool \<times> SimulationMapper) \<Rightarrow>
     (Instruction \<times> SimulationMapper) list \<Rightarrow> bool \<Rightarrow> bool \<Rightarrow> Ext" where
  "ex_X mapper mapping lg nd =
     \<lparr>isDeclaration = (\<lambda>f. f = 3),
      fn_empty = (\<lambda>f. f = 3),
      isInlineAsm = (\<lambda>I. False),
      getCalledFunction = (\<lambda>I. getCallee (ex_site I)),
      dsaCallSite = ex_site,
      globals = (\<lambda>g. if ex_ran 1 g \<or> MkCell 40 \<in> set g then [(40, Cell 7 0)] else []),
      hasCell = (\<lambda>g v. MkCell v \<in> set g
                          \<or> (ex_ran 1 g \<and> (v = 40 \<or> v = 10 \<or> v = 14 \<or> v = 22))
                          \<or> (ex_ran 2 g \<and> (v = 30 \<or> v = 31))),
      getCell = (\<lambda>g v. if v = 40 then Cell 7 0 else Cell v 0),
      hasRetCell = (\<lambda>g f. ex_ran f g),
      getRetCell = (\<lambda>g f. Cell (100 + f) 0),
      clone = (\<lambda>g n. 1000 + n),
      computeCalleeCallerMapping = mapper,
      bu_runOnModule = ex_bu mapping,
      log_enabled = lg,
      ndebug = nd\<rparr>"

text \<open>Mappers: one that finds an injective function, one that finds a mapping that is
  no function, one that finds no mapping, and one that finds no mapping until the callee
  has been cloned into the caller at the call site.\<close>

definition map_none :: "DsaCallSite \<Rightarrow> Graph \<Rightarrow> Graph \<Rightarrow> bool \<Rightarrow> bool \<times> SimulationMapper" where
  "map_none cs calleeG callerG m = (True, \<lparr>isFunction = True, isInjective = True\<rparr>)"

definition map_down :: "DsaCallSite \<Rightarrow> Graph \<Rightarrow> Graph \<Rightarrow> bool \<Rightarrow> bool \<times> SimulationMapper" where
  "map_down cs calleeG callerG m = (True, \<lparr>isFunction = True, isInjective = False\<rparr>)"

definition map_nofun :: "DsaCallSite \<Rightarrow> Graph \<Rightarrow> Graph \<Rightarrow> bool \<Rightarrow> bool \<times> SimulationMapper" where
  "map_nofun cs calleeG callerG m = (True, \<lparr>isFunction = False, isInjective = True\<rparr>)"


definition map_up_once :: "DsaCallSite \<Rightarrow> Graph \<Rightarrow> Graph \<Rightarrow> bool \<Rightarrow> bool \<times> SimulationMapper" where
  "map_up_once cs calleeG callerG m =
     (if list_ex (\<lambda>op. case op of BottomUpCloneAndResolve I g \<Rightarrow> I = getInstruction cs | _ \<Rightarrow> False)
           callerG
      then (True, \<lparr>isFunction = True, isInjective = True\<rparr>)
      else (False, \<lparr>isFunction = False, isInjective = False\<rparr>))"

definition map_down_once :: "DsaCallSite \<Rightarrow> Graph \<Rightarrow> Graph \<Rightarrow> bool \<Rightarrow> bool \<times> SimulationMapper" where
  "map_down_once cs calleeG callerG m =
     (True, \<lparr>isFunction = True, isInjective = (Compress \<in> set calleeG)\<rparr>)"

definition non_injective :: SimulationMapper where
  "non_injective = \<lparr>isFunction = True, isInjective = False\<rparr>"

text \<open>The graph objects of functions 1 and 2 after their local analyses, at addresses 0 and 1.\<close>

definition ex_heap :: "GraphRef \<Rightarrow> Graph" where
  "ex_heap = (\<lambda>_. [])(0 := [RunOnFunction 1], 1 := [RunOnFunction 2])"



text \<open>The same with the worklist, call site 10 being the one the bottom-up analysis found
  not injective.\<close>

definition ex_ls :: "(DsaCallSite \<Rightarrow> Graph \<Rightarrow> Graph \<Rightarrow> bool \<Rightarrow> bool \<times> SimulationMapper) \<Rightarrow> LoopState" where
  "ex_ls mapper = cs_seed (ex_X mapper [(10, non_injective)] False False) ex_module ex_cg cs_init"


section \<open>Properties\<close>

subsection \<open>The decision\<close>

text \<open>
  C1, as the code has it: \<^verbatim>\<open>decidePropagation\<close> returns one of the three kinds; it
  returns \<open>UP\<close> exactly when no mapping is found or the mapping found is not a function,
  \<open>DOWN\<close> exactly when a mapping is found that is a function and not injective, and
  \<open>NONE\<close> exactly when a mapping is found that is a function and injective.
\<close>

theorem decidePropagation_cases:
  "(decidePropagation X cs calleeG callerG = UP) =
     (\<not> (fst (computeCalleeCallerMapping X cs calleeG callerG True)
          \<and> isFunction (snd (computeCalleeCallerMapping X cs calleeG callerG True))))
   \<and> (decidePropagation X cs calleeG callerG = DOWN) =
     (fst (computeCalleeCallerMapping X cs calleeG callerG True)
      \<and> isFunction (snd (computeCalleeCallerMapping X cs calleeG callerG True))
      \<and> \<not> isInjective (snd (computeCalleeCallerMapping X cs calleeG callerG True)))
   \<and> (decidePropagation X cs calleeG callerG = NONE) =
     (fst (computeCalleeCallerMapping X cs calleeG callerG True)
      \<and> isFunction (snd (computeCalleeCallerMapping X cs calleeG callerG True))
      \<and> isInjective (snd (computeCalleeCallerMapping X cs calleeG callerG True)))
   \<and> decidePropagation X cs calleeG callerG \<in> {UP, DOWN, NONE}"
  by (cases "computeCalleeCallerMapping X cs calleeG callerG True")
     (simp add: decidePropagation_def)

text \<open>The theorem at call site 10 with a mapper that finds a function that is not injective.\<close>

theorem decidePropagation_cases_witness:
  "decidePropagation (ex_X map_down [] False False)
     (ex_site 10) [RunOnFunction 2] [RunOnFunction 1] = DOWN"
  using decidePropagation_cases
    [of "ex_X map_down [] False False" "ex_site 10" "[RunOnFunction 2]" "[RunOnFunction 1]"]
  by (simp add: ex_X_def ex_ran_def map_down_def)

text \<open>
  C1 as stated fails: with a mapping that is found and is not a function the result is
  \<open>UP\<close>, although a mapping exists.
\<close>

theorem decidePropagation_UP_counterexample:
  "\<not> ((decidePropagation (ex_X map_nofun [] False False)
          (ex_site 10) [RunOnFunction 2] [RunOnFunction 1] = UP)
       = (\<not> fst (computeCalleeCallerMapping (ex_X map_nofun [] False False)
                   (ex_site 10) [RunOnFunction 2] [RunOnFunction 1] True)))"
  by (simp add: decidePropagation_def ex_X_def ex_ran_def map_nofun_def)

subsection \<open>The worklist\<close>

lemma set_fold_Insert: "set (fold (\<lambda>cs w. Insert w cs) xs w) = set w \<union> set xs"
  by (induction xs arbitrary: w) (auto simp: Insert_def)

subsection \<open>Cloning the caller into the callee\<close>

lemma unified_append: "unified (S @ T) = unified S @ unified T"
  by (induction S rule: unified.induct) simp_all

lemma cloned_append: "cloned (S @ T) = cloned S @ cloned T"
  by (induction S rule: cloned.induct) simp_all

lemma caller_view_upd:
  "caller_view (h(calleeG := g')) callerG calleeG = caller_view h callerG calleeG"
  by (auto simp: caller_view_def fun_eq_iff)

lemma caller_view_now: "caller_view h callerG calleeG (h calleeG) = h callerG"
  by (simp add: caller_view_def)

lemma caller_view_at:
  "(h(calleeG := g)) callerG = caller_view h callerG calleeG g"
  by (simp add: caller_view_def)

lemma clone_global_calls:
  "clone_global X callerG calleeG kv h =
     h(calleeG := h calleeG @ global_calls X (caller_view h callerG calleeG) (h calleeG) kv)"
  by (cases kv; cases "callerG = calleeG")
     (simp_all add: clone_global_def global_calls_def call_on_def Let_def caller_view_def)

lemma fold_clone_global_calls:
  "fold (clone_global X callerG calleeG) kvs h =
     h(calleeG := h calleeG @ step1_calls X (caller_view h callerG calleeG) (h calleeG) kvs)"
proof (induction kvs arbitrary: h)
  case Nil
  show ?case by simp
next
  case (Cons kv kvs)
  let ?S = "global_calls X (caller_view h callerG calleeG) (h calleeG) kv"
  let ?h1 = "h(calleeG := h calleeG @ ?S)"
  have "fold (clone_global X callerG calleeG) (kv # kvs) h =
          fold (clone_global X callerG calleeG) kvs ?h1"
    by (simp add: clone_global_calls)
  also have "\<dots> = ?h1(calleeG := ?h1 calleeG @
                 step1_calls X (caller_view ?h1 callerG calleeG) (?h1 calleeG) kvs)"
    by (rule Cons.IH)
  also have "\<dots> = h(calleeG := h calleeG @
                 step1_calls X (caller_view h callerG calleeG) (h calleeG) (kv # kvs))"
    by (simp add: caller_view_upd)
  finally show ?case .
qed

lemma clone_return_calls:
  "clone_return X cs callee callerG calleeG h =
     h(calleeG := h calleeG @ step2_calls X (caller_view h callerG calleeG) cs callee (h calleeG))"
  by (cases "callerG = calleeG")
     (simp_all add: clone_return_def step2_calls_def call_on_def Let_def caller_view_def)

lemma clone_pair_calls:
  "clone_pair X callerG calleeG p h =
     h(calleeG := h calleeG @ pair_calls X (caller_view h callerG calleeG) (h calleeG) p)"
  by (cases p; cases "callerG = calleeG")
     (simp_all add: clone_pair_def pair_calls_def call_on_def Let_def caller_view_def)

lemma fold_clone_pair_calls:
  "fold (clone_pair X callerG calleeG) ps h =
     h(calleeG := h calleeG @ step3_calls X (caller_view h callerG calleeG) (h calleeG) ps)"
proof (induction ps arbitrary: h)
  case Nil
  show ?case by simp
next
  case (Cons p ps)
  let ?S = "pair_calls X (caller_view h callerG calleeG) (h calleeG) p"
  let ?h1 = "h(calleeG := h calleeG @ ?S)"
  have "fold (clone_pair X callerG calleeG) (p # ps) h =
          fold (clone_pair X callerG calleeG) ps ?h1"
    by (simp add: clone_pair_calls)
  also have "\<dots> = ?h1(calleeG := ?h1 calleeG @
                 step3_calls X (caller_view ?h1 callerG calleeG) (?h1 calleeG) ps)"
    by (rule Cons.IH)
  also have "\<dots> = h(calleeG := h calleeG @
                 step3_calls X (caller_view h callerG calleeG) (h calleeG) (p # ps))"
    by (simp add: caller_view_upd)
  finally show ?case .
qed

lemma cloneAndResolveArguments_calls:
  assumes "getCallee cs = Some callee"
  shows "cloneAndResolveArguments X cs callerG calleeG h =
     Inr (h(calleeG := h calleeG
            @ step1_calls X (caller_view h callerG calleeG) (h calleeG) (globals X (h callerG))
            @ step2_calls X (caller_view h callerG calleeG) cs callee
                (h calleeG @ step1_calls X (caller_view h callerG calleeG) (h calleeG) (globals X (h callerG)))
            @ step3_calls X (caller_view h callerG calleeG)
                (h calleeG @ step1_calls X (caller_view h callerG calleeG) (h calleeG) (globals X (h callerG))
                   @ step2_calls X (caller_view h callerG calleeG) cs callee
                       (h calleeG @ step1_calls X (caller_view h callerG calleeG) (h calleeG) (globals X (h callerG))))
                (zip (formals cs) (actuals cs))
            @ [Compress]))"
  by (simp add: cloneAndResolveArguments_def assms fold_clone_global_calls clone_return_calls
        fold_clone_pair_calls caller_view_upd call_on_def Let_def)

lemma global_calls_facts:
  "unified (global_calls X view g kv) = [ValueCell (fst kv)]
   \<and> cloned (global_calls X view g kv) = [getNode (snd kv)]
   \<and> Compress \<notin> set (global_calls X view g kv)"
  by (cases kv) (simp add: global_calls_def)

lemma step1_calls_facts:
  "unified (step1_calls X view g kvs) = map (ValueCell \<circ> fst) kvs
   \<and> cloned (step1_calls X view g kvs) = map (getNode \<circ> snd) kvs
   \<and> Compress \<notin> set (step1_calls X view g kvs)"
  by (induction kvs arbitrary: g) (simp_all add: unified_append cloned_append global_calls_facts)

lemma step2_calls_facts:
  "unified (step2_calls X view cs callee g) =
     (if hasRetCell X g callee \<and> hasCell X (view g) (getInstruction cs) then [RetCell callee] else [])
   \<and> cloned (step2_calls X view cs callee g) =
     (if hasRetCell X g callee \<and> hasCell X (view g) (getInstruction cs)
      then [getNode (getCell X (view g) (getInstruction cs))] else [])
   \<and> Compress \<notin> set (step2_calls X view cs callee g)"
  by (simp add: step2_calls_def Let_def)

lemma pair_calls_facts:
  "unified (pair_calls X view g (fml, arg)) =
     (if hasCell X (view g) arg \<and> hasCell X g fml then [ValueCell fml] else [])
   \<and> cloned (pair_calls X view g (fml, arg)) =
     (if hasCell X (view g) arg \<and> hasCell X g fml then [getNode (getCell X (view g) arg)] else [])
   \<and> Compress \<notin> set (pair_calls X view g (fml, arg))"
  by (simp add: pair_calls_def Let_def)

lemma step3_calls_Compress: "Compress \<notin> set (step3_calls X view g ps)"
proof (induction ps arbitrary: g)
  case Nil
  show ?case by simp
next
  case (Cons p ps)
  obtain fml arg where p: "p = (fml, arg)" by (cases p)
  show ?case using Cons.IH pair_calls_facts [of X view g fml arg] by (simp add: p)
qed

text \<open>
  C3, as the code has it: for a call site with a callee, the helper returns, and the
  calls it makes on the callee graph are exactly those of step (1), then those of step
  (2), then those of step (3), then one \<^verbatim>\<open>compress\<close>, the only one and the last call; no
  other graph object changes. Step (1) clones and unifies every global of the caller
  graph, in the order of the caller graph, whether the callee graph has a cell for it or
  not. Step (2) clones and unifies the return cell when the callee graph has one and the
  caller graph has a cell for the call instruction. Step (3) takes the pairs of a formal
  and an actual in order, up to the shorter list; as it reaches a pair, it clones and
  unifies it if the caller graph has a cell for the actual and the callee graph has a
  cell for the formal, and makes no call for it otherwise.
\<close>

theorem cloneAndResolveArguments_order:
  assumes "getCallee cs = Some callee"
  shows "(let view = caller_view h callerG calleeG;
              G = step1_calls X view (h calleeG) (globals X (h callerG));
              R = step2_calls X view cs callee (h calleeG @ G);
              A = step3_calls X view (h calleeG @ G @ R) (zip (formals cs) (actuals cs))
          in cloneAndResolveArguments X cs callerG calleeG h =
               Inr (h(calleeG := h calleeG @ G @ R @ A @ [Compress]))
             \<and> Compress \<notin> set (G @ R @ A)
             \<and> unified G = map (ValueCell \<circ> fst) (globals X (h callerG))
             \<and> cloned G = map (getNode \<circ> snd) (globals X (h callerG))
             \<and> unified R =
                 (if hasRetCell X (h calleeG @ G) callee
                     \<and> hasCell X (view (h calleeG @ G)) (getInstruction cs)
                  then [RetCell callee] else [])
             \<and> cloned R =
                 (if hasRetCell X (h calleeG @ G) callee
                     \<and> hasCell X (view (h calleeG @ G)) (getInstruction cs)
                  then [getNode (getCell X (view (h calleeG @ G)) (getInstruction cs))] else []))
   \<and> unified (step3_calls X v g []) = []
   \<and> unified (step3_calls X v g ((fml, arg) # ps)) =
       (if hasCell X (v g) arg \<and> hasCell X g fml then [ValueCell fml] else [])
       @ unified (step3_calls X v (g @ pair_calls X v g (fml, arg)) ps)
   \<and> cloned (step3_calls X v g ((fml, arg) # ps)) =
       (if hasCell X (v g) arg \<and> hasCell X g fml then [getNode (getCell X (v g) arg)] else [])
       @ cloned (step3_calls X v (g @ pair_calls X v g (fml, arg)) ps)
   \<and> (\<not> (hasCell X (v g) arg \<and> hasCell X g fml) \<longrightarrow> pair_calls X v g (fml, arg) = [])"
proof -
  have run: "let view = caller_view h callerG calleeG;
              G = step1_calls X view (h calleeG) (globals X (h callerG));
              R = step2_calls X view cs callee (h calleeG @ G);
              A = step3_calls X view (h calleeG @ G @ R) (zip (formals cs) (actuals cs))
          in cloneAndResolveArguments X cs callerG calleeG h =
               Inr (h(calleeG := h calleeG @ G @ R @ A @ [Compress]))
             \<and> Compress \<notin> set (G @ R @ A)
             \<and> unified G = map (ValueCell \<circ> fst) (globals X (h callerG))
             \<and> cloned G = map (getNode \<circ> snd) (globals X (h callerG))
             \<and> unified R =
                 (if hasRetCell X (h calleeG @ G) callee
                     \<and> hasCell X (view (h calleeG @ G)) (getInstruction cs)
                  then [RetCell callee] else [])
             \<and> cloned R =
                 (if hasRetCell X (h calleeG @ G) callee
                     \<and> hasCell X (view (h calleeG @ G)) (getInstruction cs)
                  then [getNode (getCell X (view (h calleeG @ G)) (getInstruction cs))] else [])"
    unfolding Let_def
    using cloneAndResolveArguments_calls [OF assms, of X callerG calleeG h]
      step1_calls_facts step2_calls_facts step3_calls_Compress
    by simp
  have pair: "\<not> (hasCell X (v g) arg \<and> hasCell X g fml) \<longrightarrow> pair_calls X v g (fml, arg) = []"
    by (simp add: pair_calls_def)
  show ?thesis
    using run pair_calls_facts [of X v g fml arg] pair
    by (simp add: unified_append cloned_append)
qed

text \<open>
  The theorem at call site 14, from the graph of function 1 into that of function 2: of
  the two pairs, the first is passed over, function 1 having no cell for the actual 20,
  and the second is cloned and unified; the third actual has no formal.
\<close>

theorem cloneAndResolveArguments_order_witness:
  "getCallee (ex_site 14) = Some 2
   \<and> zip (formals (ex_site 14)) (actuals (ex_site 14)) = [(30, 20), (31, 22)]
   \<and> cloneAndResolveArguments (ex_X map_none [] False False) (ex_site 14) 0 1 ex_heap =
       Inr (ex_heap(1 := [RunOnFunction 2, CloneNode [RunOnFunction 1] 7, MkCell 40,
                          Unify (ValueCell 40) (Cell 1007 0),
                          CloneNode [RunOnFunction 1] 14, Unify (RetCell 2) (Cell 1014 0),
                          CloneNode [RunOnFunction 1] 22, MkCell 31,
                          Unify (ValueCell 31) (Cell 1022 0), Compress]))
   \<and> pair_calls (ex_X map_none [] False False) (caller_view ex_heap 0 1) (ex_heap 1) (30, 20) = []
   \<and> unified (step3_calls (ex_X map_none [] False False) (caller_view ex_heap 0 1) (ex_heap 1)
                [(30, 20), (31, 22)]) = [ValueCell 31]"
proof -
  let ?X = "ex_X map_none [] False False"
  have c: "getCallee (ex_site 14) = Some 2"
    by (simp add: ex_site_def)
  have z: "zip (formals (ex_site 14)) (actuals (ex_site 14)) = [(30, 20), (31, 22)]"
    by (simp add: ex_site_def)
  have g: "\<not> (hasCell ?X (caller_view ex_heap 0 1 (ex_heap 1)) 20 \<and> hasCell ?X (ex_heap 1) 30)"
    by (simp add: caller_view_def ex_heap_def ex_X_def ex_ran_def)
  note T = cloneAndResolveArguments_order
    [OF c, where X = ?X and callerG = 0 and calleeG = 1 and h = ex_heap
       and v = "caller_view ex_heap 0 1" and g = "ex_heap 1" and fml = 30 and arg = 20
       and ps = "[(31, 22)]"]
  from T g have p: "pair_calls ?X (caller_view ex_heap 0 1) (ex_heap 1) (30, 20) = []"
    by blast
  from T have run: "cloneAndResolveArguments ?X (ex_site 14) 0 1 ex_heap =
       Inr (ex_heap(1 := [RunOnFunction 2, CloneNode [RunOnFunction 1] 7, MkCell 40,
                          Unify (ValueCell 40) (Cell 1007 0),
                          CloneNode [RunOnFunction 1] 14, Unify (RetCell 2) (Cell 1014 0),
                          CloneNode [RunOnFunction 1] 22, MkCell 31,
                          Unify (ValueCell 31) (Cell 1022 0), Compress]))"
    by (simp add: Let_def z global_calls_def step2_calls_def pair_calls_def caller_view_def
        ex_heap_def ex_X_def ex_ran_def ex_site_def)
  from T g p have u: "unified (step3_calls ?X (caller_view ex_heap 0 1) (ex_heap 1)
                [(30, 20), (31, 22)]) = [ValueCell 31]"
    by (simp add: pair_calls_def caller_view_def ex_heap_def ex_X_def ex_ran_def)
  from c z run p u show ?thesis by blast
qed

text \<open>
  C3 as stated fails at call site 10. The formal 30 and the actual 20 are a pair within
  the shorter list, yet the formal is not unified, the caller graph having no cell for
  the actual; and the global 40, for which the callee graph has no cell, is cloned and
  unified all the same.
\<close>

theorem cloneAndResolveArguments_counterexample:
  "cloneAndResolveArguments (ex_X map_none [] False False) (ex_site 10) 0 1 ex_heap =
     Inr (ex_heap(1 := [RunOnFunction 2, CloneNode [RunOnFunction 1] 7, MkCell 40,
                        Unify (ValueCell 40) (Cell 1007 0),
                        CloneNode [RunOnFunction 1] 10, Unify (RetCell 2) (Cell 1010 0), Compress]))
   \<and> zip (formals (ex_site 10)) (actuals (ex_site 10)) = [(30, 20)]
   \<and> \<not> hasCell (ex_X map_none [] False False) (ex_heap 0) 20
   \<and> \<not> hasCell (ex_X map_none [] False False) (ex_heap 1) 40"
  by (simp add: cloneAndResolveArguments_def ex_X_def ex_ran_def ex_site_def ex_heap_def clone_global_def
      clone_return_def clone_pair_def call_on_def)

lemmas ex_defs = cs_seed_def ex_X_def ex_ran_def ex_module_def ex_cg_def cs_init_def ex_bu_def ex_site_def
  init_graph_def new_graph_def log_msg_def buildIndexes_def index_scc_def store_node_def
  usedef_node_def compute_imm_preds_def pred_node_def pred_record_def set_insert_def no_body_def
  non_injective_def call_on_def

lemmas cs_run_defs = cs_runOnModule_def cs_finish_def logged_check_def asserted_check_def
  checkNoMorePropagation_def check_callsite_def loop_body_def pop_back_def graph_of_def
  decidePropagation_def propagateTopDown_def propagateBottomUp_def
  bu_cloneAndResolveArguments_def cloneAndResolveArguments_def clone_global_def clone_return_def
  clone_pair_def reinsert_def Insert_def

subsection \<open>One round of the loop\<close>

lemma propagateTopDown_fields:
  fixes st :: CSGA
  assumes "propagateTopDown X cs callerG calleeG st = Inr st'"
  shows "m_graphs st' = m_graphs st \<and> m_uses st' = m_uses st \<and> m_defs st' = m_defs st"
  using assms unfolding propagateTopDown_def log_msg_def Let_def
  by (auto split: sum.splits if_splits)

lemma propagateBottomUp_fields:
  fixes st :: CSGA
  assumes "propagateBottomUp X cs calleeG callerG st = Inr st'"
  shows "m_graphs st' = m_graphs st \<and> m_uses st' = m_uses st \<and> m_defs st' = m_defs st"
  using assms unfolding propagateBottomUp_def log_msg_def Let_def
  by (auto split: sum.splits if_splits)

lemma cloneAndResolveArguments_frame:
  assumes "cloneAndResolveArguments X cs callerG calleeG h = Inr h'" "r \<noteq> calleeG"
  shows "h' r = h r"
proof -
  from assms(1) obtain callee where c: "getCallee cs = Some callee"
    by (cases "getCallee cs") (simp_all add: cloneAndResolveArguments_def Let_def)
  from cloneAndResolveArguments_calls [OF c, of X callerG calleeG h] assms show ?thesis
    by auto
qed

lemma propagateTopDown_heap:
  assumes "propagateTopDown X cs callerG calleeG st = Inr st'" "r \<noteq> calleeG"
  shows "heap st' r = heap st r"
  using assms unfolding propagateTopDown_def log_msg_def Let_def
  by (auto split: sum.splits if_splits dest: cloneAndResolveArguments_frame)

lemma propagateBottomUp_heap:
  assumes "propagateBottomUp X cs calleeG callerG st = Inr st'" "r \<noteq> callerG"
  shows "heap st' r = heap st r"
  using assms unfolding propagateBottomUp_def log_msg_def Let_def bu_cloneAndResolveArguments_def call_on_def
  by (auto split: sum.splits if_splits)

lemma reinsert_result:
  assumes "reinsert st fn w = Inr w'"
  shows "\<exists>us ds. m_uses st fn = Some us \<and> m_defs st fn = Some ds
           \<and> w' = fold (\<lambda>cs w. Insert w cs) ds (fold (\<lambda>cs w. Insert w cs) us w)
           \<and> set us \<union> set ds \<subseteq> set w'"
  using assms unfolding reinsert_def
  by (auto split: option.splits simp: set_fold_Insert)

lemma loop_body_worklist:
  assumes "worklist ls = w @ [I]" "loop_body X ls = Inr ls'"
  shows "\<exists>xs. worklist ls' = fold (\<lambda>cs w. Insert w cs) xs w"
proof -
  have pop: "pop_back (worklist ls) = (I, w)"
    by (simp add: assms(1) pop_back_def)
  have nil: "\<exists>xs. w = fold (\<lambda>cs w. Insert w cs) xs w"
    by (rule exI [of _ "[]"]) simp
  have two: "\<And>us ds. \<exists>xs. fold (\<lambda>cs w. Insert w cs) ds (fold (\<lambda>cs w. Insert w cs) us w)
     = fold (\<lambda>cs w. Insert w cs) xs w"
    subgoal for us ds by (rule exI [of _ "us @ ds"]) simp
    done
  from assms(2) pop show ?thesis
    unfolding loop_body_def Let_def
    by (auto split: sum.splits option.splits if_splits PropagationKind.splits
             dest!: reinsert_result intro: nil two)
qed

text \<open>
  C8: inserting an instruction that is pending leaves the worklist as it is, inserting
  one that is not pending appends it at the back, and the loop takes the element at the
  back, the one appended last: a round that starts with \<open>I\<close> at the back goes on with
  the elements before it, to which it adds by insertion only.
\<close>

theorem Insert_idempotent_pop_lifo:
  "(I \<in> set w \<longrightarrow> Insert w I = w)
   \<and> (I \<notin> set w \<longrightarrow> Insert w I = w @ [I])
   \<and> Insert (Insert w I) I = Insert w I
   \<and> pop_back (w @ [I]) = (I, w)
   \<and> (I \<notin> set w \<longrightarrow> pop_back (Insert w I) = (I, w))
   \<and> (worklist ls = w @ [I] \<and> loop_body X ls = Inr ls' \<longrightarrow>
        (\<exists>xs. worklist ls' = fold (\<lambda>cs w. Insert w cs) xs w))"
  using loop_body_worklist [of ls w I X ls']
  by (simp add: Insert_def pop_back_def)

text \<open>The theorem on the worklist of 10 and 11, and on a round that finds 10 consistent.\<close>

theorem Insert_idempotent_pop_lifo_witness:
  "Insert [10, 11] 10 = [10, 11] \<and> Insert [10, 11] 12 = [10, 11, 12]
   \<and> pop_back (Insert [10, 11] 12) = (12, [10, 11])
   \<and> (\<exists>xs. [12] = fold (\<lambda>cs w. Insert w cs) xs [12])"
  using Insert_idempotent_pop_lifo [of 10 "[10, 11]"] Insert_idempotent_pop_lifo [of 12 "[10, 11]"]
    Insert_idempotent_pop_lifo
      [of 10 "[12]" "(cs_seed (ex_X map_none [] False False) ex_module ex_cg cs_init)\<lparr>worklist := [12, 10]\<rparr>"
          "ex_X map_none [] False False"
          "(cs_seed (ex_X map_none [] False False) ex_module ex_cg cs_init)\<lparr>worklist := [12]\<rparr>"]
  by (simp add: ex_defs loop_body_def pop_back_def graph_of_def decidePropagation_def map_none_def)

text \<open>
  C2, as the code has it: a round that takes a call site with a callee that has a body
  and finds \<open>DOWN\<close> changes the graph of the callee only, and inserts into the worklist
  every call site of the use set and of the def set of the callee; a round that finds
  \<open>UP\<close> changes the graph of the caller only, and inserts every call site of the use set
  and of the def set of the caller; a round that finds \<open>NONE\<close> changes nothing and
  inserts nothing.
\<close>

theorem loop_body_reinserts:
  assumes "worklist ls = w @ [I]"
    and "\<not> isInlineAsm X I"
    and "getCallee (dsaCallSite X I) = Some callee"
    and "\<not> isDeclaration X callee" and "\<not> fn_empty X callee"
    and "graph_of X (ga ls) (getCaller (dsaCallSite X I)) = Inr callerG"
    and "graph_of X (ga ls) (Some callee) = Inr calleeG"
    and "loop_body X ls = Inr ls'"
  shows "(decidePropagation X (dsaCallSite X I) (heap (ga ls) calleeG) (heap (ga ls) callerG) = DOWN \<longrightarrow>
            (\<exists>us ds. m_uses (ga ls) callee = Some us \<and> m_defs (ga ls) callee = Some ds
               \<and> worklist ls' = fold (\<lambda>cs w. Insert w cs) ds (fold (\<lambda>cs w. Insert w cs) us w)
               \<and> set us \<union> set ds \<subseteq> set (worklist ls'))
            \<and> (\<forall>r. r \<noteq> calleeG \<longrightarrow> heap (ga ls') r = heap (ga ls) r))
       \<and> (decidePropagation X (dsaCallSite X I) (heap (ga ls) calleeG) (heap (ga ls) callerG) = UP \<longrightarrow>
            (\<exists>caller us ds. getCaller (dsaCallSite X I) = Some caller
               \<and> m_uses (ga ls) caller = Some us \<and> m_defs (ga ls) caller = Some ds
               \<and> worklist ls' = fold (\<lambda>cs w. Insert w cs) ds (fold (\<lambda>cs w. Insert w cs) us w)
               \<and> set us \<union> set ds \<subseteq> set (worklist ls'))
            \<and> (\<forall>r. r \<noteq> callerG \<longrightarrow> heap (ga ls') r = heap (ga ls) r))
       \<and> (decidePropagation X (dsaCallSite X I) (heap (ga ls) calleeG) (heap (ga ls) callerG) = NONE \<longrightarrow>
            worklist ls' = w \<and> ga ls' = ga ls)"
proof -
  let ?cs = "dsaCallSite X I"
  let ?k = "decidePropagation X ?cs (heap (ga ls) calleeG) (heap (ga ls) callerG)"
  obtain caller where caller: "getCaller ?cs = Some caller"
    using assms(6) by (cases "getCaller ?cs") (simp_all add: graph_of_def)
  have pop: "pop_back (worklist ls) = (I, w)"
    by (simp add: assms(1) pop_back_def)
  show ?thesis
  proof (cases ?k)
    case DOWN
    then obtain st where td: "propagateTopDown X ?cs callerG calleeG (ga ls) = Inr st"
      and ri: "\<exists>w'. reinsert st callee w = Inr w' \<and> worklist ls' = w' \<and> ga ls' = st"
      using assms(2-8) pop
      by (auto simp: loop_body_def Let_def split: sum.splits)
    from ri obtain w' where w': "reinsert st callee w = Inr w'" "worklist ls' = w'" "ga ls' = st"
      by blast
    from reinsert_result [OF w'(1)] propagateTopDown_fields [OF td] propagateTopDown_heap [OF td] w'(2,3) DOWN
    show ?thesis by auto
  next
    case UP
    then obtain st where bu: "propagateBottomUp X ?cs calleeG callerG (ga ls) = Inr st"
      and ri: "\<exists>w'. reinsert st caller w = Inr w' \<and> worklist ls' = w' \<and> ga ls' = st"
      using assms(2-8) pop caller
      by (auto simp: loop_body_def Let_def split: sum.splits)
    from ri obtain w' where w': "reinsert st caller w = Inr w'" "worklist ls' = w'" "ga ls' = st"
      by blast
    from reinsert_result [OF w'(1)] propagateBottomUp_fields [OF bu] propagateBottomUp_heap [OF bu] w'(2,3) UP caller
    show ?thesis by auto
  next
    case NONE
    then show ?thesis
      using assms(2-8) pop
      by (auto simp: loop_body_def Let_def split: sum.splits)
  qed
qed

text \<open>
  The theorem on three rounds that take call site 10: one that finds \<open>UP\<close>, one that finds
  \<open>DOWN\<close>, and one that finds \<open>NONE\<close>.
\<close>

theorem loop_body_reinserts_witness:
  "(\<exists>ls'. loop_body (ex_X map_up_once [(10, non_injective)] False False) (ex_ls map_up_once) = Inr ls'
       \<and> m_uses (ga (ex_ls map_up_once)) 1 = Some []
       \<and> m_defs (ga (ex_ls map_up_once)) 1 = Some [10, 13]
       \<and> {10, 13} \<subseteq> set (worklist ls')
       \<and> heap (ga ls') 1 = heap (ga (ex_ls map_up_once)) 1)
   \<and> (\<exists>ls'. loop_body (ex_X map_down_once [(10, non_injective)] False False) (ex_ls map_down_once) = Inr ls'
       \<and> m_uses (ga (ex_ls map_down_once)) 2 = Some [10]
       \<and> m_defs (ga (ex_ls map_down_once)) 2 = Some [12]
       \<and> {10, 12} \<subseteq> set (worklist ls')
       \<and> heap (ga ls') 0 = heap (ga (ex_ls map_down_once)) 0)
   \<and> (\<exists>ls'. loop_body (ex_X map_none [(10, non_injective)] False False) (ex_ls map_none) = Inr ls'
       \<and> worklist ls' = [])"
proof -
  let ?U = "ex_X map_up_once [(10, non_injective)] False False"
  let ?D = "ex_X map_down_once [(10, non_injective)] False False"
  let ?N = "ex_X map_none [(10, non_injective)] False False"
  have w: "worklist (ex_ls map_up_once) = [] @ [10]" "worklist (ex_ls map_down_once) = [] @ [10]"
    "worklist (ex_ls map_none) = [] @ [10]"
    by (simp_all add: ex_ls_def ex_defs)
  have a: "\<And>m. \<not> isInlineAsm (ex_X m [(10, non_injective)] False False) 10"
    "\<And>m. getCallee (dsaCallSite (ex_X m [(10, non_injective)] False False) 10) = Some 2"
    "\<And>m. \<not> isDeclaration (ex_X m [(10, non_injective)] False False) 2"
    "\<And>m. \<not> fn_empty (ex_X m [(10, non_injective)] False False) 2"
    "\<And>m. getCaller (dsaCallSite (ex_X m [(10, non_injective)] False False) 10) = Some 1"
    by (simp_all add: ex_X_def ex_ran_def ex_site_def)
  have g: "\<And>m. graph_of (ex_X m [(10, non_injective)] False False) (ga (ex_ls m))
                (getCaller (dsaCallSite (ex_X m [(10, non_injective)] False False) 10)) = Inr 0"
    "\<And>m. graph_of (ex_X m [(10, non_injective)] False False) (ga (ex_ls m)) (Some 2) = Inr 1"
    by (simp_all add: ex_ls_def ex_defs graph_of_def)
  have k: "decidePropagation ?U (dsaCallSite ?U 10)
             (heap (ga (ex_ls map_up_once)) 1) (heap (ga (ex_ls map_up_once)) 0) = UP"
    "decidePropagation ?D (dsaCallSite ?D 10)
             (heap (ga (ex_ls map_down_once)) 1) (heap (ga (ex_ls map_down_once)) 0) = DOWN"
    "decidePropagation ?N (dsaCallSite ?N 10)
             (heap (ga (ex_ls map_none)) 1) (heap (ga (ex_ls map_none)) 0) = NONE"
    by (simp_all add: ex_ls_def ex_defs decidePropagation_def map_up_once_def map_down_once_def
        map_none_def)
  have ud: "m_uses (ga (ex_ls map_up_once)) 1 = Some []"
    "m_defs (ga (ex_ls map_up_once)) 1 = Some [10, 13]"
    "m_uses (ga (ex_ls map_down_once)) 2 = Some [10]"
    "m_defs (ga (ex_ls map_down_once)) 2 = Some [12]"
    by (simp_all add: ex_ls_def ex_defs)
  obtain lu where bu: "loop_body ?U (ex_ls map_up_once) = Inr lu"
    by (simp add: ex_ls_def ex_defs cs_run_defs map_up_once_def)
  obtain ld where bd: "loop_body ?D (ex_ls map_down_once) = Inr ld"
    by (simp add: ex_ls_def ex_defs cs_run_defs map_down_once_def)
  obtain ln where bn: "loop_body ?N (ex_ls map_none) = Inr ln"
    by (simp add: ex_ls_def ex_defs cs_run_defs map_none_def)
  from loop_body_reinserts [OF w(1) a(1-4) g bu] k(1) ud a(5)
  have u: "{10, 13} \<subseteq> set (worklist lu) \<and> heap (ga lu) 1 = heap (ga (ex_ls map_up_once)) 1"
    by auto
  from loop_body_reinserts [OF w(2) a(1-4) g bd] k(2) ud
  have d: "{10, 12} \<subseteq> set (worklist ld) \<and> heap (ga ld) 0 = heap (ga (ex_ls map_down_once)) 0"
    by auto
  from loop_body_reinserts [OF w(3) a(1-4) g bn] k(3)
  have n: "worklist ln = []"
    by auto
  from bu bd bn u d n ud show ?thesis by blast
qed

text \<open>
  C2 as stated fails: the round that takes call site 10 finds \<open>UP\<close>; instruction 12 is in
  the def set of the callee, function 2, and is not in the worklist after the round,
  which holds the def set of the caller, function 1.
\<close>

theorem loop_body_reinserts_counterexample:
  "decidePropagation (ex_X map_up_once [(10, non_injective)] False False) (ex_site 10)
      (heap (ga (ex_ls map_up_once)) 1) (heap (ga (ex_ls map_up_once)) 0) = UP
   \<and> m_defs (ga (ex_ls map_up_once)) 2 = Some [12]
   \<and> map_sum id worklist
       (loop_body (ex_X map_up_once [(10, non_injective)] False False) (ex_ls map_up_once))
       = Inr [10, 13]"
  by (simp add: ex_ls_def ex_defs cs_run_defs map_up_once_def)

subsection \<open>The two propagations\<close>




subsection \<open>Context-insensitive analysis\<close>

lemma log_msg_machine [simp]:
  "heap (log_msg X m st) = heap st" "next_ref (log_msg X m st) = next_ref st"
  "Machine.more (log_msg X m st) = Machine.more st"
  by (simp_all add: log_msg_def)

lemma log_msg_ci [simp]:
  "m_graph (log_msg X m st) = m_graph st" "m_fns (log_msg X m st) = m_fns st"
  by (simp_all add: log_msg_def)

lemma log_msg_cs [simp]:
  "m_graphs (log_msg X m st) = m_graphs st" "m_uses (log_msg X m st) = m_uses st"
  "m_defs (log_msg X m st) = m_defs st"
  by (simp_all add: log_msg_def)

lemma import_node_fields:
  "m_graph (import_node X r cgn st) = m_graph st
   \<and> m_fns (import_node X r cgn st) =
       m_fns st \<union> {fn. getFunction cgn = Some fn \<and> \<not> isDeclaration X fn \<and> \<not> fn_empty X fn}"
  by (auto simp: import_node_def Let_def split: option.splits)

lemma fold_import_node_fields:
  "m_graph (fold (import_node X r) scc st) = m_graph st
   \<and> m_fns (fold (import_node X r) scc st) =
       m_fns st \<union> {fn. \<exists>cgn \<in> set scc. getFunction cgn = Some fn
                          \<and> \<not> isDeclaration X fn \<and> \<not> fn_empty X fn}"
proof (induction scc arbitrary: st)
  case Nil
  show ?case by simp
next
  case (Cons cgn scc)
  show ?case
    using Cons.IH [of "import_node X r cgn st"] import_node_fields [of X r cgn st]
    by auto
qed

lemma resolve_record_fields:
  "resolve_record X r fn I st = Inr st' \<Longrightarrow> m_graph st' = m_graph st \<and> m_fns st' = m_fns st"
  by (auto simp: resolve_record_def Let_def split: if_splits sum.splits)

lemma resolve_records_fields:
  "resolve_records X r fn Is st = Inr st' \<Longrightarrow> m_graph st' = m_graph st \<and> m_fns st' = m_fns st"
proof (induction Is arbitrary: st)
  case Nil
  then show ?case by simp
next
  case (Cons I Is)
  then show ?case
    by (auto split: sum.splits dest!: resolve_record_fields)
qed

lemma resolve_node_fields:
  "resolve_node X r cgn st = Inr st' \<Longrightarrow> m_graph st' = m_graph st \<and> m_fns st' = m_fns st"
  by (auto simp: resolve_node_def split: option.splits if_splits dest!: resolve_records_fields)

lemma resolve_nodes_fields:
  "resolve_nodes X r scc st = Inr st' \<Longrightarrow> m_graph st' = m_graph st \<and> m_fns st' = m_fns st"
proof (induction scc arbitrary: st)
  case Nil
  then show ?case by simp
next
  case (Cons cgn scc)
  then show ?case
    by (auto split: sum.splits dest!: resolve_node_fields)
qed

lemma ci_scc_fields:
  assumes "ci_scc X r scc st = Inr st'"
  shows "m_graph st' = m_graph st
   \<and> m_fns st' = m_fns st \<union> {fn. \<exists>cgn \<in> set scc. getFunction cgn = Some fn
                          \<and> \<not> isDeclaration X fn \<and> \<not> fn_empty X fn}"
proof -
  from assms obtain s1 where s1: "resolve_nodes X r scc (fold (import_node X r) scc st) = Inr s1"
    and st': "st' = s1\<lparr>heap := call_on r Compress (heap s1)\<rparr>"
    by (auto simp: ci_scc_def split: sum.splits)
  from resolve_nodes_fields [OF s1] fold_import_node_fields [of X r scc st] st'
  show ?thesis by simp
qed

lemma ci_sccs_fields:
  "ci_sccs X r cg st = Inr st' \<Longrightarrow>
     m_graph st' = m_graph st \<and> m_fns st' = m_fns st \<union> imported X cg"
proof (induction cg arbitrary: st)
  case Nil
  then show ?case by (simp add: imported_def)
next
  case (Cons scc cg)
  from Cons.prems obtain s1 where s1: "ci_scc X r scc st = Inr s1" and rest: "ci_sccs X r cg s1 = Inr st'"
    by (auto split: sum.splits)
  have "imported X (scc # cg) = {fn. \<exists>cgn \<in> set scc. getFunction cgn = Some fn
                          \<and> \<not> isDeclaration X fn \<and> \<not> fn_empty X fn} \<union> imported X cg"
    by (auto simp: imported_def)
  with Cons.IH [OF rest] ci_scc_fields [OF s1] show ?case
    by auto
qed

lemma ci_runOnModule_fields:
  assumes "ci_runOnModule X cg st = Inr (st', b)"
  shows "b = False \<and> m_graph st' = Some (next_ref st) \<and> m_fns st' = m_fns st \<union> imported X cg"
proof -
  obtain r s2 where n: "new_graph (log_msg X StartedCI st) = (r, s2)"
    by (cases "new_graph (log_msg X StartedCI st)")
  then have r: "r = next_ref st" and s2: "m_fns s2 = m_fns st"
    by (auto simp: new_graph_def)
  from assms n obtain s4 where s4: "ci_sccs X r cg (s2\<lparr>m_graph := Some r\<rparr>) = Inr s4"
    and res: "st' = log_msg X FinishedCI s4" "b = False"
    by (auto simp: ci_runOnModule_def split: sum.splits)
  from ci_sccs_fields [OF s4] res r s2 show ?thesis
    by simp
qed








lemma local_graphs_append: "local_graphs (S @ T) = local_graphs S @ local_graphs T"
  by (induction S rule: local_graphs.induct) simp_all

lemma set_with_body:
  "(fn \<in> set (with_body X cgn)) =
     (getFunction cgn = Some fn \<and> \<not> isDeclaration X fn \<and> \<not> fn_empty X fn)"
  by (auto simp: with_body_def split: option.splits)

lemma set_walked: "set (walked X cg) = imported X cg"
  by (auto simp: walked_def imported_def set_with_body) blast+

lemma import_node_heap:
  "heap (import_node X r cgn st) r =
     heap st r @ map (\<lambda>fn. ImportGraph [RunOnFunction fn] True) (with_body X cgn)"
  by (simp add: import_node_def with_body_def call_on_def Let_def split: option.splits)

lemma fold_import_node_heap:
  "heap (fold (import_node X r) scc st) r =
     heap st r @ map (\<lambda>fn. ImportGraph [RunOnFunction fn] True) (concat (map (with_body X) scc))"
proof (induction scc arbitrary: st)
  case Nil
  show ?case by simp
next
  case (Cons cgn scc)
  show ?case
    using Cons.IH [of "import_node X r cgn st"] import_node_heap [of X r cgn st]
    by simp
qed

lemma resolve_return_calls:
  "\<exists>T. resolve_return X cs callee g = g @ T \<and> local_graphs T = []"
  by (cases "hasRetCell X g callee") (simp_all add: resolve_return_def Let_def)

lemma resolve_pair_calls:
  "\<exists>T. resolve_pair X p g = g @ T \<and> local_graphs T = []"
  by (cases p; cases "hasCell X g (fst p)") (simp_all add: resolve_pair_def Let_def)

lemma fold_resolve_pair_calls:
  "\<exists>T. fold (resolve_pair X) ps g = g @ T \<and> local_graphs T = []"
proof (induction ps arbitrary: g)
  case Nil
  show ?case by simp
next
  case (Cons p ps)
  obtain T1 where T1: "resolve_pair X p g = g @ T1" "local_graphs T1 = []"
    using resolve_pair_calls by blast
  obtain T2 where T2: "fold (resolve_pair X) ps (g @ T1) = (g @ T1) @ T2" "local_graphs T2 = []"
    using Cons.IH by blast
  show ?case
    by (rule exI [of _ "T1 @ T2"]) (simp add: T1 T2 local_graphs_append)
qed

lemma resolveArguments_calls:
  assumes "resolveArguments X cs g = Inr g'"
  shows "\<exists>T. g' = g @ T \<and> local_graphs T = []"
proof -
  from assms obtain callee where c: "getCallee cs = Some callee"
    and g': "g' = fold (resolve_pair X) (zip (formals cs) (actuals cs)) (resolve_return X cs callee g)"
    by (auto simp: resolveArguments_def split: option.splits)
  obtain T1 where T1: "resolve_return X cs callee g = g @ T1" "local_graphs T1 = []"
    using resolve_return_calls by blast
  obtain T2 where T2: "fold (resolve_pair X) (zip (formals cs) (actuals cs)) (g @ T1) = (g @ T1) @ T2"
    "local_graphs T2 = []"
    using fold_resolve_pair_calls by blast
  show ?thesis
    by (rule exI [of _ "T1 @ T2"]) (simp add: g' T1 T2 local_graphs_append)
qed

lemma resolve_record_heap:
  assumes "resolve_record X r fn I st = Inr st'"
  shows "local_graphs (heap st' r) = local_graphs (heap st r)"
proof (cases "no_body X (getCallee (dsaCallSite X I))")
  case True
  with assms show ?thesis by (simp add: resolve_record_def)
next
  case False
  with assms obtain g where g: "resolveArguments X (dsaCallSite X I) (heap st r) = Inr g"
    and st': "st' = st\<lparr>heap := (heap st)(r := g)\<rparr>"
    by (auto simp: resolve_record_def Let_def split: if_splits sum.splits)
  from resolveArguments_calls [OF g] st' show ?thesis
    by (auto simp: local_graphs_append)
qed

lemma resolve_records_heap:
  "resolve_records X r fn Is st = Inr st' \<Longrightarrow>
     local_graphs (heap st' r) = local_graphs (heap st r)"
proof (induction Is arbitrary: st)
  case Nil
  then show ?case by simp
next
  case (Cons I Is)
  then show ?case
    by (auto split: sum.splits dest!: resolve_record_heap)
qed

lemma resolve_node_heap:
  "resolve_node X r cgn st = Inr st' \<Longrightarrow> local_graphs (heap st' r) = local_graphs (heap st r)"
  by (auto simp: resolve_node_def split: option.splits if_splits dest!: resolve_records_heap)

lemma resolve_nodes_heap:
  "resolve_nodes X r scc st = Inr st' \<Longrightarrow> local_graphs (heap st' r) = local_graphs (heap st r)"
proof (induction scc arbitrary: st)
  case Nil
  then show ?case by simp
next
  case (Cons cgn scc)
  then show ?case
    by (auto split: sum.splits dest!: resolve_node_heap)
qed

lemma local_graphs_imports:
  "local_graphs (map (\<lambda>fn. ImportGraph [RunOnFunction fn] True) fs) = map (\<lambda>fn. [RunOnFunction fn]) fs"
  by (induction fs) simp_all

lemma ci_scc_heap:
  assumes "ci_scc X r scc st = Inr st'"
  shows "local_graphs (heap st' r) =
           local_graphs (heap st r) @ map (\<lambda>fn. [RunOnFunction fn]) (walked X [scc])"
proof -
  from assms obtain s1 where s1: "resolve_nodes X r scc (fold (import_node X r) scc st) = Inr s1"
    and st': "st' = s1\<lparr>heap := call_on r Compress (heap s1)\<rparr>"
    by (auto simp: ci_scc_def split: sum.splits)
  from resolve_nodes_heap [OF s1] fold_import_node_heap [of X r scc st] st'
  show ?thesis
    by (simp add: call_on_def local_graphs_append local_graphs_imports walked_def)
qed

lemma ci_sccs_heap:
  "ci_sccs X r cg st = Inr st' \<Longrightarrow>
     local_graphs (heap st' r) =
       local_graphs (heap st r) @ map (\<lambda>fn. [RunOnFunction fn]) (walked X cg)"
proof (induction cg arbitrary: st)
  case Nil
  then show ?case by (simp add: walked_def)
next
  case (Cons scc cg)
  from Cons.prems obtain s1 where s1: "ci_scc X r scc st = Inr s1" and rest: "ci_sccs X r cg s1 = Inr st'"
    by (auto split: sum.splits)
  have "walked X (scc # cg) = walked X [scc] @ walked X cg"
    by (simp add: walked_def)
  with Cons.IH [OF rest] ci_scc_heap [OF s1] show ?case
    by simp
qed

lemma ci_runOnModule_heap:
  assumes "ci_runOnModule X cg st = Inr (st', b)"
  shows "local_graphs (heap st' (next_ref st)) = map (\<lambda>fn. [RunOnFunction fn]) (walked X cg)"
proof -
  obtain r s2 where n: "new_graph (log_msg X StartedCI st) = (r, s2)"
    by (cases "new_graph (log_msg X StartedCI st)")
  then have r: "r = next_ref st" and s2: "heap s2 r = []"
    by (auto simp: new_graph_def)
  from assms n obtain s4 where s4: "ci_sccs X r cg (s2\<lparr>m_graph := Some r\<rparr>) = Inr s4"
    and res: "st' = log_msg X FinishedCI s4"
    by (auto simp: ci_runOnModule_def split: sum.splits)
  from ci_sccs_heap [OF s4] res r s2 show ?thesis
    by simp
qed

text \<open>
  C5: after a run of the context-insensitive analysis, \<^verbatim>\<open>getGraph\<close> returns the same
  graph object for every function, so for any two functions, those of one component
  among them. That object is the one the run has imported the local graphs into: those
  of the functions with a body that the walk finds, each once and in the order of the
  walk. A location has the same cell, hence the same node, in the graph returned for
  either function, and for a location that has a cell in the shared graph, a global of
  both functions in particular, that cell is the one of the shared graph.
\<close>

theorem ci_getGraph_shared:
  assumes "ci_runOnModule X cg st = Inr (st', b)"
  shows "\<exists>r. (\<forall>f. ci_getGraph X st' f = Inr r)
             \<and> local_graphs (heap st' r) = map (\<lambda>fn. [RunOnFunction fn]) (walked X cg)
             \<and> (\<forall>f \<in> imported X cg. [RunOnFunction f] \<in> set (local_graphs (heap st' r)))
             \<and> (\<forall>f g v. ci_cell X st' f v = ci_cell X st' g v)
             \<and> (\<forall>f v. hasCell X (heap st' r) v \<longrightarrow>
                   ci_cell X st' f v = Inr (getCell X (heap st' r) v))"
proof -
  have g: "m_graph st' = Some (next_ref st)"
    using ci_runOnModule_fields [OF assms] by simp
  have l: "local_graphs (heap st' (next_ref st)) = map (\<lambda>fn. [RunOnFunction fn]) (walked X cg)"
    by (rule ci_runOnModule_heap [OF assms])
  have m: "\<forall>f \<in> imported X cg. [RunOnFunction f] \<in> set (local_graphs (heap st' (next_ref st)))"
    unfolding l set_walked [symmetric] by simp
  show ?thesis
    using g l m by (intro exI [of _ "next_ref st"]) (simp add: ci_getGraph_def ci_cell_def)
qed

lemmas ci_ex_defs = ci_runOnModule_def ci_init_def ex_cg_rec_def ex_X_def ex_ran_def ex_site_def new_graph_def
  log_msg_def ci_scc_def import_node_def resolve_node_def resolve_record_def resolveArguments_def
  resolve_return_def resolve_pair_def no_body_def call_on_def

text \<open>
  The theorem on the module where functions 1 and 2 call each other: the shared graph
  has the local graphs of both, and the global 40 has the cell at node 7 for either.
\<close>

theorem ci_getGraph_shared_witness:
  "\<exists>st' b. ci_runOnModule (ex_X map_none [] False False) ex_cg_rec ci_init = Inr (st', b)
     \<and> ci_getGraph (ex_X map_none [] False False) st' 1 = Inr 0
     \<and> ci_getGraph (ex_X map_none [] False False) st' 2 = Inr 0
     \<and> local_graphs (heap st' 0) = [[RunOnFunction 1], [RunOnFunction 2]]
     \<and> hasCell (ex_X map_none [] False False) (heap st' 0) 40
     \<and> ci_cell (ex_X map_none [] False False) st' 1 40 = Inr (Cell 7 0)
     \<and> ci_cell (ex_X map_none [] False False) st' 2 40 = Inr (Cell 7 0)"
proof -
  let ?X = "ex_X map_none [] False False"
  have "\<exists>st'. ci_runOnModule ?X ex_cg_rec ci_init = Inr (st', False)
          \<and> m_graph st' = Some 0
          \<and> heap st' 0 =
              [ImportGraph [RunOnFunction 1] True, ImportGraph [RunOnFunction 2] True,
               MkCell 10, Unify (ValueCell 10) (Cell 102 0), MkCell 20, MkCell 30,
               Unify (ValueCell 20) (Cell 30 0), MkCell 11, Unify (ValueCell 11) (Cell 101 0),
               Compress, Compress]"
    by (simp add: ci_ex_defs)
  then obtain st' b where run: "ci_runOnModule ?X ex_cg_rec ci_init = Inr (st', b)"
    and g: "m_graph st' = Some 0"
    and h: "heap st' 0 =
              [ImportGraph [RunOnFunction 1] True, ImportGraph [RunOnFunction 2] True,
               MkCell 10, Unify (ValueCell 10) (Cell 102 0), MkCell 20, MkCell 30,
               Unify (ValueCell 20) (Cell 30 0), MkCell 11, Unify (ValueCell 11) (Cell 101 0),
               Compress, Compress]"
    by blast
  from ci_getGraph_shared [OF run] obtain r where r:
    "\<forall>f. ci_getGraph ?X st' f = Inr r"
    "local_graphs (heap st' r) = map (\<lambda>fn. [RunOnFunction fn]) (walked ?X ex_cg_rec)"
    "\<forall>f v. hasCell ?X (heap st' r) v \<longrightarrow> ci_cell ?X st' f v = Inr (getCell ?X (heap st' r) v)"
    by blast
  have r0: "r = 0"
    using r(1) g by (simp add: ci_getGraph_def)
  have w: "walked ?X ex_cg_rec = [1, 2]"
    by (simp add: walked_def with_body_def ex_cg_rec_def ex_X_def)
  have c: "hasCell ?X (heap st' 0) 40" "getCell ?X (heap st' 0) 40 = Cell 7 0"
    by (simp_all add: h ex_X_def ex_ran_def)
  from run r r0 w c show ?thesis
    by auto
qed

text \<open>
  C7: after a run of the context-insensitive analysis that starts with no function
  recorded, \<^verbatim>\<open>hasGraph\<close> holds of a function exactly when the walk over the components
  of the call graph finds it and it is neither a declaration nor empty.
\<close>

theorem ci_hasGraph_iff_imported:
  assumes "ci_runOnModule X cg st = Inr (st', b)" and "m_fns st = {}"
  shows "ci_hasGraph st' fn =
           (\<exists>scc \<in> set cg. \<exists>cgn \<in> set scc.
              getFunction cgn = Some fn \<and> \<not> isDeclaration X fn \<and> \<not> fn_empty X fn)"
  using ci_runOnModule_fields [OF assms(1)] assms(2)
  by (simp add: ci_hasGraph_def imported_def)

text \<open>The theorem on the same module: functions 1 and 2 have a graph, 3 and 4 have none.\<close>

theorem ci_hasGraph_iff_imported_witness:
  "m_fns ci_init = {}
   \<and> (\<exists>st' b. ci_runOnModule (ex_X map_none [] False False) ex_cg_rec ci_init = Inr (st', b)
        \<and> ci_hasGraph st' 1 \<and> ci_hasGraph st' 2 \<and> \<not> ci_hasGraph st' 3 \<and> \<not> ci_hasGraph st' 4)"
proof -
  have e: "m_fns ci_init = {}"
    by (simp add: ci_init_def)
  have "\<exists>st'. ci_runOnModule (ex_X map_none [] False False) ex_cg_rec ci_init = Inr (st', False)"
    by (simp add: ci_ex_defs)
  then obtain st' b where run: "ci_runOnModule (ex_X map_none [] False False) ex_cg_rec ci_init = Inr (st', b)"
    by blast
  have "ci_hasGraph st' 1" "ci_hasGraph st' 2" "\<not> ci_hasGraph st' 3" "\<not> ci_hasGraph st' 4"
    using ci_hasGraph_iff_imported [OF run e, of 1] ci_hasGraph_iff_imported [OF run e, of 2]
      ci_hasGraph_iff_imported [OF run e, of 3] ci_hasGraph_iff_imported [OF run e, of 4]
    by (simp_all add: ex_cg_rec_def ex_X_def ex_ran_def)
  with e run show ?thesis by blast
qed

subsection \<open>Context-sensitive analysis\<close>

lemma init_graph_fields:
  "m_graphs (init_graph F st) = (m_graphs st)(F \<mapsto> next_ref st)
   \<and> next_ref (init_graph F st) = Suc (next_ref st)
   \<and> heap (init_graph F st) = (heap st)(next_ref st := [])"
  by (simp add: init_graph_def new_graph_def)

lemma fold_init_graph_next:
  "next_ref (fold init_graph M st) = next_ref st + length M"
  by (induction M arbitrary: st) (simp_all add: init_graph_fields)

lemma fold_init_graph_fresh:
  "\<forall>F \<in> set M. \<exists>r. m_graphs (fold init_graph M st) F = Some r
      \<and> next_ref st \<le> r \<and> r < next_ref (fold init_graph M st)
      \<and> heap (fold init_graph M st) r = []"
proof (induction M rule: rev_induct)
  case Nil
  show ?case by simp
next
  case (snoc G M)
  let ?s = "fold init_graph M st"
  have n: "next_ref st \<le> next_ref ?s"
    by (simp add: fold_init_graph_next)
  show ?case
  proof
    fix F assume F: "F \<in> set (M @ [G])"
    show "\<exists>r. m_graphs (fold init_graph (M @ [G]) st) F = Some r
      \<and> next_ref st \<le> r \<and> r < next_ref (fold init_graph (M @ [G]) st)
      \<and> heap (fold init_graph (M @ [G]) st) r = []"
    proof (cases "F = G")
      case True
      then show ?thesis using n by (simp add: init_graph_fields)
    next
      case False
      with F snoc.IH obtain r where "m_graphs ?s F = Some r" "next_ref st \<le> r" "r < next_ref ?s"
        "heap ?s r = []" by auto
      with False show ?thesis by (simp add: init_graph_fields)
    qed
  qed
qed

lemma store_node_fields:
  "m_graphs (store_node X ud cgn st) = m_graphs st \<and> heap (store_node X ud cgn st) = heap st"
  by (simp add: store_node_def split: option.splits)

lemma fold_store_node_fields:
  "m_graphs (fold (store_node X ud) scc st) = m_graphs st
   \<and> heap (fold (store_node X ud) scc st) = heap st"
  by (induction scc arbitrary: st) (simp_all add: store_node_fields)

lemma buildIndexes_fields:
  "m_graphs (buildIndexes X cg st) = m_graphs st \<and> heap (buildIndexes X cg st) = heap st"
proof -
  have "\<And>f. m_graphs (fold (index_scc X f) cg st) = m_graphs st
        \<and> heap (fold (index_scc X f) cg st) = heap st"
    by (induction cg arbitrary: st) (simp_all add: index_scc_def fold_store_node_fields)
  then show ?thesis by (simp add: buildIndexes_def)
qed

lemma loop_body_graphs:
  assumes "loop_body X ls = Inr ls'"
  shows "m_graphs (ga ls') = m_graphs (ga ls)"
  using assms unfolding loop_body_def Let_def
  by (auto split: prod.splits sum.splits option.splits if_splits PropagationKind.splits
           dest!: propagateTopDown_fields propagateBottomUp_fields)

lemma worklist_loop_graphs:
  "worklist_loop X fuel ls = Some (Inr ls') \<Longrightarrow> m_graphs (ga ls') = m_graphs (ga ls)"
proof (induction fuel arbitrary: ls)
  case 0
  then show ?case by (simp split: if_splits)
next
  case (Suc k)
  show ?case
  proof (cases "worklist ls = []")
    case True
    with Suc.prems show ?thesis by simp
  next
    case False
    with Suc.prems obtain l1 where b: "loop_body X ls = Inr l1" and r: "worklist_loop X k l1 = Some (Inr ls')"
      by (auto split: sum.splits)
    from Suc.IH [OF r] loop_body_graphs [OF b] show ?thesis by simp
  qed
qed

lemma checkNoMorePropagation_state:
  "checkNoMorePropagation X cg st = Inr (b, st') \<Longrightarrow> \<exists>m. st' = st\<lparr>errs := errs st @ [m]\<rparr>"
  by (auto simp: checkNoMorePropagation_def split: sum.splits option.splits)

lemma cs_finish_graphs:
  assumes "cs_finish X cg ls = Inr (st', b)"
  shows "m_graphs st' = m_graphs (ga ls) \<and> b = False"
  using assms unfolding cs_finish_def logged_check_def asserted_check_def Let_def
  by (auto split: sum.splits if_splits prod.splits dest!: checkNoMorePropagation_state)

text \<open>
  C10: a run of the context-sensitive analysis first gives every function of the module,
  declarations and empty functions among them, a new and empty graph object; and when
  the run returns, the bottom-up analysis having removed no entry of the map it is
  given, \<^verbatim>\<open>hasGraph\<close> holds of every function of the module.
\<close>

theorem cs_hasGraph_every_function:
  assumes "cs_runOnModule X fuel M cg st = Some (Inr (st', b))"
    and "\<forall>gs h n. dom gs \<subseteq> dom (bu_graphs (bu_runOnModule X M gs h n))"
  shows "(\<forall>F \<in> set M. cs_hasGraph st' F)
       \<and> (\<forall>F \<in> set M. \<exists>r. m_graphs (fold init_graph M (log_msg X StartedCS st)) F = Some r
             \<and> next_ref st \<le> r \<and> heap (fold init_graph M (log_msg X StartedCS st)) r = [])"
proof -
  let ?s2 = "fold init_graph M (log_msg X StartedCS st)"
  let ?bu = "bu_runOnModule X M (m_graphs ?s2) (heap ?s2) (next_ref ?s2)"
  have fresh: "\<forall>F \<in> set M. \<exists>r. m_graphs ?s2 F = Some r \<and> next_ref st \<le> r \<and> heap ?s2 r = []"
    using fold_init_graph_fresh [of M "log_msg X StartedCS st"] by auto
  from assms(1) obtain ls where loop: "worklist_loop X fuel (cs_seed X M cg st) = Some (Inr ls)"
    and fin: "cs_finish X cg ls = Inr (st', b)"
    by (auto simp: cs_runOnModule_def split: option.splits sum.splits)
  have "m_graphs st' = m_graphs (ga (cs_seed X M cg st))"
    using worklist_loop_graphs [OF loop] cs_finish_graphs [OF fin] by simp
  also have "\<dots> = bu_graphs ?bu"
    by (simp add: cs_seed_def Let_def buildIndexes_fields)
  finally have g: "m_graphs st' = bu_graphs ?bu" .
  have "dom (m_graphs ?s2) \<subseteq> dom (bu_graphs ?bu)"
    using assms(2) by blast
  with fresh g have "\<forall>F \<in> set M. cs_hasGraph st' F"
    by (auto simp: cs_hasGraph_def)
  with fresh show ?thesis by blast
qed

text \<open>
  The theorem on the run that clones the caller into the callee at call sites 10 and 12:
  the declaration 3 has a graph like the others.
\<close>

theorem cs_hasGraph_every_function_witness:
  "(\<forall>gs h n. dom gs \<subseteq> dom (bu_graphs (bu_runOnModule
        (ex_X map_down_once [(10, non_injective)] True False) ex_module gs h n)))
   \<and> (\<exists>st' b. cs_runOnModule (ex_X map_down_once [(10, non_injective)] True False) 5
                 ex_module ex_cg cs_init = Some (Inr (st', b))
        \<and> cs_hasGraph st' 1 \<and> cs_hasGraph st' 2 \<and> cs_hasGraph st' 3 \<and> cs_hasGraph st' 4)"
proof -
  let ?X = "ex_X map_down_once [(10, non_injective)] True False"
  have keep: "\<forall>gs h n. dom gs \<subseteq> dom (bu_graphs (bu_runOnModule ?X ex_module gs h n))"
    by (simp add: ex_X_def ex_ran_def ex_bu_def)
  have "\<exists>st'. cs_runOnModule ?X 5 ex_module ex_cg cs_init = Some (Inr (st', False))"
    by (simp add: eval_nat_numeral ex_defs cs_run_defs map_down_once_def)
  then obtain st' b where run: "cs_runOnModule ?X 5 ex_module ex_cg cs_init = Some (Inr (st', b))"
    by blast
  from cs_hasGraph_every_function [OF run keep]
  have "cs_hasGraph st' 1 \<and> cs_hasGraph st' 2 \<and> cs_hasGraph st' 3 \<and> cs_hasGraph st' 4"
    by (simp add: ex_module_def)
  with keep run show ?thesis by blast
qed

subsection \<open>The check after the loop\<close>
















subsection \<open>What the runs return\<close>













end
